theory Spec2Isabelle
  imports Complex_Main "HOL-Library.Log_Nat"
begin

section \<open>Python values used by the auto-trader\<close>

text \<open>
  The exceptions the modelled handlers can raise.  \<open>IndexError\<close> comes from indexing a
  list out of range, \<open>OverflowError\<close> from converting an integer outside the double range
  (or an infinity) and \<open>ValueError\<close> from converting a NaN to an integer;
  \<open>UnicodeDecodeError\<close> comes from decoding the text of an error message.
\<close>

datatype py_error = IndexError | OverflowError | ValueError | UnicodeDecodeError

subsection \<open>Binary64 floating point\<close>

text \<open>
  A Python \<open>float\<close> is an IEEE 754 binary64 number.  A finite one is kept as the rational
  it denotes (the sign of a zero is dropped: no operation used here observes it).  Every
  operation computes the exact rational result and rounds it to the nearest binary64 number,
  ties to even: 53 significant bits, smallest exponent \<open>-1022\<close> (below it the spacing stays
  \<open>2^-1074\<close>), and a rounded magnitude of \<open>2^1024\<close> or more is an infinity.
\<close>

datatype pyfloat = Finite rat | PosInf | NegInf | NaN

definition pow2 :: "int \<Rightarrow> rat" where
  "pow2 k = (if 0 \<le> k then 2 ^ nat k else 1 / 2 ^ nat (- k))"

text \<open>\<open>ilog2 x\<close> is the integer \<open>e\<close> with \<open>2^e \<le> x < 2^(e+1)\<close>, for \<open>x > 0\<close>.\<close>

definition ilog2 :: "rat \<Rightarrow> int" where
  "ilog2 x = (if 1 \<le> x then bitlen \<lfloor>x\<rfloor> - 1 else - bitlen (\<lceil>1 / x\<rceil> - 1))"

definition round_half_even :: "rat \<Rightarrow> int" where
  "round_half_even y =
     (let f = \<lfloor>y\<rfloor>; r = y - of_int f
      in if r < 1 / 2 then f
         else if 1 / 2 < r then f + 1
         else if even f then f else f + 1)"

definition round_binary64 :: "rat \<Rightarrow> rat" where
  "round_binary64 x =
     (if x = 0 then 0
      else let q = pow2 (max (ilog2 \<bar>x\<bar>) (- 1022) - 52)
           in of_int (round_half_even (x / q)) * q)"

definition to_double :: "rat \<Rightarrow> pyfloat" where
  "to_double x =
     (let r = round_binary64 x
      in if 2 ^ 1024 \<le> r then PosInf
         else if r \<le> - (2 ^ 1024) then NegInf
         else Finite r)"

text \<open>Addition and subtraction of two floats.\<close>

fun float_add :: "pyfloat \<Rightarrow> pyfloat \<Rightarrow> pyfloat" where
  "float_add (Finite a) (Finite b) = to_double (a + b)"
| "float_add NaN _ = NaN"
| "float_add _ NaN = NaN"
| "float_add PosInf NegInf = NaN"
| "float_add NegInf PosInf = NaN"
| "float_add PosInf _ = PosInf"
| "float_add _ PosInf = PosInf"
| "float_add NegInf _ = NegInf"
| "float_add _ NegInf = NegInf"

fun float_neg :: "pyfloat \<Rightarrow> pyfloat" where
  "float_neg (Finite a) = Finite (- a)"
| "float_neg PosInf = NegInf"
| "float_neg NegInf = PosInf"
| "float_neg NaN = NaN"

definition float_sub :: "pyfloat \<Rightarrow> pyfloat \<Rightarrow> pyfloat" where
  "float_sub x y = float_add x (float_neg y)"

text \<open>
  \<open>float(n)\<close> for a Python integer: the nearest double, or \<open>OverflowError\<close> when the
  integer is too large to convert.
\<close>

definition float_of_int :: "int \<Rightarrow> py_error + rat" where
  "float_of_int n =
     (case to_double (of_int n) of Finite r \<Rightarrow> Inr r | _ \<Rightarrow> Inl OverflowError)"

text \<open>
  \<open>n * w\<close> for an integer \<open>n\<close> and a finite float \<open>w\<close>: the integer is converted first,
  then the two doubles are multiplied.
\<close>

definition int_times_float :: "int \<Rightarrow> rat \<Rightarrow> py_error + pyfloat" where
  "int_times_float n w =
     (case float_of_int n of Inl e \<Rightarrow> Inl e | Inr x \<Rightarrow> Inr (to_double (x * w)))"

text \<open>\<open>x / d\<close> for a float \<open>x\<close> and a positive integer \<open>d\<close> that is a double itself.\<close>

fun float_div_pos :: "pyfloat \<Rightarrow> rat \<Rightarrow> pyfloat" where
  "float_div_pos (Finite a) d = to_double (a / d)"
| "float_div_pos PosInf d = PosInf"
| "float_div_pos NegInf d = NegInf"
| "float_div_pos NaN d = NaN"

text \<open>\<open>int(x)\<close> for a float: truncation toward zero; infinities and NaN raise.\<close>

definition trunc_toward_zero :: "rat \<Rightarrow> int" where
  "trunc_toward_zero a = (if 0 \<le> a then \<lfloor>a\<rfloor> else \<lceil>a\<rceil>)"

fun int_of_float :: "pyfloat \<Rightarrow> py_error + int" where
  "int_of_float (Finite a) = Inr (trunc_toward_zero a)"
| "int_of_float PosInf = Inl OverflowError"
| "int_of_float NegInf = Inl OverflowError"
| "int_of_float NaN = Inl ValueError"

section \<open>The imbalance score: \<open>assess_market_balance\<close>\<close>

text \<open>The float literals \<open>0.7\<close>, \<open>0.2\<close> and \<open>0.1\<close>: each is the double nearest to the decimal.\<close>

definition weights :: "rat list" where
  "weights = [round_binary64 (7 / 10), round_binary64 (2 / 10), round_binary64 (1 / 10)]"

text \<open>
  One pass of the loop body for index \<open>i\<close>:
  \<open>balance += asks[i][1] * weights[i]; balance -= bids[i][1] * weights[i]\<close>.
  Indexing a list of pairs that is too short raises \<open>IndexError\<close>.
\<close>

definition balance_step ::
  "(int \<times> int) list \<Rightarrow> (int \<times> int) list \<Rightarrow> pyfloat \<Rightarrow> nat \<Rightarrow> py_error + pyfloat" where
  "balance_step asks bids balance i =
     (if length asks \<le> i then Inl IndexError
      else case int_times_float (snd (asks ! i)) (weights ! i) of
        Inl e \<Rightarrow> Inl e
      | Inr x \<Rightarrow>
          (let balance1 = float_add balance x
           in if length bids \<le> i then Inl IndexError
              else case int_times_float (snd (bids ! i)) (weights ! i) of
                Inl e \<Rightarrow> Inl e
              | Inr y \<Rightarrow> Inr (float_sub balance1 y)))"

fun balance_loop ::
  "(int \<times> int) list \<Rightarrow> (int \<times> int) list \<Rightarrow> nat list \<Rightarrow> pyfloat \<Rightarrow> py_error + pyfloat" where
  "balance_loop asks bids [] balance = Inr balance"
| "balance_loop asks bids (i # rest) balance =
     (case balance_step asks bids balance i of
        Inl e \<Rightarrow> Inl e
      | Inr balance' \<Rightarrow> balance_loop asks bids rest balance')"

definition assess_market_balance ::
  "int list \<Rightarrow> int list \<Rightarrow> int list \<Rightarrow> int list \<Rightarrow> py_error + int" where
  "assess_market_balance ask_prices ask_volumes bid_prices bid_volumes =
     (let search_width = length weights;
          asks = zip (take search_width ask_prices) (take search_width ask_volumes);
          bids = zip (take search_width bid_prices) (take search_width bid_volumes)
      in case balance_loop asks bids [0..<search_width] (Finite 0) of
           Inl e \<Rightarrow> Inl e
         | Inr balance \<Rightarrow> int_of_float (float_div_pos balance (10 ^ 2)))"

section \<open>The trader's state and the instructions it emits\<close>

definition VOLUME_LIMIT :: int where "VOLUME_LIMIT = 200"
definition LOT_SIZE :: int where "LOT_SIZE = 10"
definition POSITION_SOFT_LIMIT :: int where "POSITION_SOFT_LIMIT = 600"
definition POSITION_LIMIT :: int where "POSITION_LIMIT = 1000"
definition MARKET_BALANCE_LIMIT :: int where "MARKET_BALANCE_LIMIT = 2"

text \<open>
  Modelled from the spec: the identifier of the tracked instrument, \<open>Instrument.FUTURE\<close> of
  the \<open>ready_trader_one\<close> package, whose declaration is not among the sources.  The spec
  says only that snapshots for other instruments are ignored entirely, so nothing but
  equality with this identifier matters.
\<close>

definition FUTURE :: int where "FUTURE = 0"

text \<open>
  Modelled from the spec: the two order sides and the time-in-force values of the
  \<open>ready_trader_one\<close> package (\<open>Side\<close>, \<open>Lifespan\<close>), not among the sources either.
\<close>

datatype side = BUY | SELL

datatype lifespan = FILL_AND_KILL | GOOD_FOR_DAY

text \<open>
  The two calls into the base class, \<open>send_cancel_order\<close> and \<open>send_insert_order\<close>, are
  the trader's only output; a handler returns them in the order in which it makes them.
\<close>

datatype instruction =
    CancelOrder int
  | InsertOrder int side int int lifespan

fun is_cancel :: "instruction \<Rightarrow> bool" where
  "is_cancel (CancelOrder _) = True"
| "is_cancel (InsertOrder _ _ _ _ _) = False"

text \<open>
  The fields set by \<open>__init__\<close>.  \<open>order_ids\<close> is \<open>itertools.count(1)\<close>, kept as the
  number the next call of \<open>next\<close> returns.
\<close>

record trader =
  order_ids :: int
  bids :: "int set"
  asks :: "int set"
  ask_id :: int
  ask_price :: int
  bid_id :: int
  bid_price :: int
  position :: int

definition init_trader :: trader where
  "init_trader =
     \<lparr>order_ids = 1, bids = {}, asks = {}, ask_id = 0, ask_price = 0,
      bid_id = 0, bid_price = 0, position = 0\<rparr>"

section \<open>\<open>on_order_book_update_message\<close>\<close>

text \<open>The volumes before scaling (the two conditional expressions after the prices).\<close>

definition base_bid_volume :: "int \<Rightarrow> int" where
  "base_bid_volume pos =
     (if pos > 0 then LOT_SIZE else min (max LOT_SIZE \<bar>pos\<bar>) (VOLUME_LIMIT - LOT_SIZE))"

definition base_ask_volume :: "int \<Rightarrow> int" where
  "base_ask_volume pos =
     (if pos < 0 then LOT_SIZE else min (max LOT_SIZE \<bar>pos\<bar>) (VOLUME_LIMIT - LOT_SIZE))"

text \<open>The block under the comment ``Safety limit'': scaling by the clamped balance.\<close>

definition scale_volumes :: "int \<Rightarrow> int \<Rightarrow> int \<times> int \<Rightarrow> int \<times> int" where
  "scale_volumes pos balance vols =
     (case vols of (new_bid_volume, new_ask_volume) \<Rightarrow>
        if pos \<le> POSITION_SOFT_LIMIT then
          if balance > 0 then
            (let balance1 = (if balance > MARKET_BALANCE_LIMIT then MARKET_BALANCE_LIMIT
                             else balance)
             in (new_bid_volume * balance1, new_ask_volume))
          else if balance < 0 then
            (let balance1 = (if balance < - MARKET_BALANCE_LIMIT then - MARKET_BALANCE_LIMIT
                             else balance)
             in (new_bid_volume, new_ask_volume * (- balance1)))
          else (new_bid_volume, new_ask_volume)
        else (new_bid_volume, new_ask_volume))"

text \<open>The two cancel blocks: each returns the new state and what it sent.\<close>

definition cancel_bid :: "trader \<Rightarrow> int \<Rightarrow> trader \<times> instruction list" where
  "cancel_bid s new_bid_price =
     (if bid_id s \<noteq> 0 \<and> new_bid_price \<notin> set [bid_price s, 0]
      then (s\<lparr>bid_id := 0\<rparr>, [CancelOrder (bid_id s)])
      else (s, []))"

definition cancel_ask :: "trader \<Rightarrow> int \<Rightarrow> trader \<times> instruction list" where
  "cancel_ask s new_ask_price =
     (if ask_id s \<noteq> 0 \<and> new_ask_price \<notin> set [ask_price s, 0]
      then (s\<lparr>ask_id := 0\<rparr>, [CancelOrder (ask_id s)])
      else (s, []))"

text \<open>The two insert blocks.\<close>

definition insert_bid :: "trader \<Rightarrow> int \<Rightarrow> int \<Rightarrow> trader \<times> instruction list" where
  "insert_bid s new_bid_price new_bid_volume =
     (if bid_id s = 0 \<and> new_bid_price \<noteq> 0 \<and> position s + new_bid_volume < POSITION_LIMIT
      then (let oid = order_ids s
            in (s\<lparr>order_ids := oid + 1, bid_id := oid, bid_price := new_bid_price,
                   bids := insert oid (bids s)\<rparr>,
                [InsertOrder oid BUY new_bid_price new_bid_volume GOOD_FOR_DAY]))
      else (s, []))"

definition insert_ask :: "trader \<Rightarrow> int \<Rightarrow> int \<Rightarrow> trader \<times> instruction list" where
  "insert_ask s new_ask_price new_ask_volume =
     (if ask_id s = 0 \<and> new_ask_price \<noteq> 0 \<and> position s - new_ask_volume > - POSITION_LIMIT
      then (let oid = order_ids s
            in (s\<lparr>order_ids := oid + 1, ask_id := oid, ask_price := new_ask_price,
                   asks := insert oid (asks s)\<rparr>,
                [InsertOrder oid SELL new_ask_price new_ask_volume GOOD_FOR_DAY]))
      else (s, []))"

text \<open>The cancel pass followed by the insert pass, in the order of the source.\<close>

definition reconcile ::
  "trader \<Rightarrow> int \<Rightarrow> int \<Rightarrow> int \<Rightarrow> int \<Rightarrow> trader \<times> instruction list" where
  "reconcile s new_bid_price new_ask_price new_bid_volume new_ask_volume =
     (let (s1, out1) = cancel_bid s new_bid_price;
          (s2, out2) = cancel_ask s1 new_ask_price;
          (s3, out3) = insert_bid s2 new_bid_price new_bid_volume;
          (s4, out4) = insert_ask s3 new_ask_price new_ask_volume
      in (s4, out1 @ out2 @ out3 @ out4))"

text \<open>
  The handler.  \<open>bid_prices[0]\<close> and \<open>ask_prices[0]\<close> raise on an empty list, and
  \<open>assess_market_balance\<close> may raise; all of that happens before the first assignment to a
  field, so a raised exception leaves the state as it was.
\<close>

definition on_order_book_update_message ::
  "trader \<Rightarrow> int \<Rightarrow> int \<Rightarrow> int list \<Rightarrow> int list \<Rightarrow> int list \<Rightarrow> int list
     \<Rightarrow> py_error + trader \<times> instruction list" where
  "on_order_book_update_message s instrument sequence_number
       ask_prices ask_volumes bid_prices bid_volumes =
     (if instrument = FUTURE then
        (case bid_prices of
           [] \<Rightarrow> Inl IndexError
         | bid0 # _ \<Rightarrow>
            (case ask_prices of
               [] \<Rightarrow> Inl IndexError
             | ask0 # _ \<Rightarrow>
                (let new_bid_price = (if bid0 \<noteq> 0 then bid0 else 0);
                     new_ask_price = (if ask0 \<noteq> 0 then ask0 else 0);
                     base = (base_bid_volume (position s), base_ask_volume (position s))
                 in case assess_market_balance ask_prices ask_volumes bid_prices bid_volumes of
                      Inl e \<Rightarrow> Inl e
                    | Inr balance \<Rightarrow>
                       (let (new_bid_volume, new_ask_volume) =
                              scale_volumes (position s) balance base
                        in Inr (reconcile s new_bid_price new_ask_price
                                  new_bid_volume new_ask_volume)))))
      else Inr (s, []))"

section \<open>The other handlers\<close>

definition on_order_filled_message :: "trader \<Rightarrow> int \<Rightarrow> int \<Rightarrow> int \<Rightarrow> trader" where
  "on_order_filled_message s client_order_id price volume =
     (if client_order_id \<in> bids s then s\<lparr>position := position s + volume\<rparr>
      else if client_order_id \<in> asks s then s\<lparr>position := position s - volume\<rparr>
      else s)"

definition on_order_status_message ::
  "trader \<Rightarrow> int \<Rightarrow> int \<Rightarrow> int \<Rightarrow> int \<Rightarrow> trader" where
  "on_order_status_message s client_order_id fill_volume remaining_volume fees =
     (if remaining_volume = 0 then
        (let s1 = (if client_order_id = bid_id s then s\<lparr>bid_id := 0\<rparr>
                   else if client_order_id = ask_id s then s\<lparr>ask_id := 0\<rparr>
                   else s)
         in s1\<lparr>bids := bids s1 - {client_order_id}, asks := asks s1 - {client_order_id}\<rparr>)
      else s)"

text \<open>
  \<open>on_error_message\<close> logs the decoded message and treats an error for an order as its
  closure.  \<open>decodable\<close> says whether the message bytes are valid UTF-8; if not,
  \<open>decode\<close> raises before anything else happens.
\<close>

definition on_error_message :: "trader \<Rightarrow> int \<Rightarrow> bool \<Rightarrow> py_error + trader" where
  "on_error_message s client_order_id decodable =
     (if \<not> decodable then Inl UnicodeDecodeError
      else if client_order_id \<noteq> 0 then Inr (on_order_status_message s client_order_id 0 0 0)
      else Inr s)"

section \<open>Reachable states\<close>

text \<open>
  The states the trader can be in: the state after \<open>__init__\<close>, and every state a handler
  leaves behind when it returns, whatever message the exchange sends.
\<close>

inductive reachable :: "trader \<Rightarrow> bool" where
  reach_init: "reachable init_trader"
| reach_book:
    "reachable s \<Longrightarrow>
     on_order_book_update_message s instrument sequence_number
        ask_prices ask_volumes bid_prices bid_volumes = Inr (s', out) \<Longrightarrow>
     reachable s'"
| reach_fill:
    "reachable s \<Longrightarrow> reachable (on_order_filled_message s client_order_id price volume)"
| reach_status:
    "reachable s \<Longrightarrow>
     reachable (on_order_status_message s client_order_id fill_volume remaining_volume fees)"
| reach_error:
    "reachable s \<Longrightarrow> on_error_message s client_order_id decodable = Inr s' \<Longrightarrow> reachable s'"

section \<open>Reference definitions taken from the specification\<close>

text \<open>
  The spec's \<open>clamp(x, lo, hi)\<close>, used in its description of the base volumes.
\<close>

definition clamp :: "int \<Rightarrow> int \<Rightarrow> int \<Rightarrow> int" where
  "clamp x lo hi = max lo (min x hi)"

text \<open>
  The spec's imbalance score, in exact arithmetic: the weighted ask volume minus the weighted
  bid volume of the three best levels, with weights \<open>0.7\<close>, \<open>0.2\<close>, \<open>0.1\<close>, divided by
  100 and truncated toward zero.  A level that is absent contributes volume zero.
\<close>

definition level_volume :: "int list \<Rightarrow> nat \<Rightarrow> int" where
  "level_volume volumes i = (if i < length volumes then volumes ! i else 0)"

definition spec_balance :: "int list \<Rightarrow> int list \<Rightarrow> rat" where
  "spec_balance ask_volumes bid_volumes =
     ((7 / 10 * of_int (level_volume ask_volumes 0) + 2 / 10 * of_int (level_volume ask_volumes 1)
         + 1 / 10 * of_int (level_volume ask_volumes 2))
      - (7 / 10 * of_int (level_volume bid_volumes 0) + 2 / 10 * of_int (level_volume bid_volumes 1)
         + 1 / 10 * of_int (level_volume bid_volumes 2))) / 100"

definition spec_score :: "int list \<Rightarrow> int list \<Rightarrow> int" where
  "spec_score ask_volumes bid_volumes = trunc_toward_zero (spec_balance ask_volumes bid_volumes)"

section \<open>An invariant of the order ledger\<close>

text \<open>
  Identifiers are handed out by a counter, so every identifier the trader knows is below the
  counter: the two live identifiers are different unless both are zero, and no identifier
  is recorded as a bid and as an ask.
\<close>

definition ledger_inv :: "trader \<Rightarrow> bool" where
  "ledger_inv s \<longleftrightarrow>
     0 < order_ids s \<and> bid_id s < order_ids s \<and> ask_id s < order_ids s \<and>
     (bid_id s = ask_id s \<longrightarrow> bid_id s = 0) \<and>
     (\<forall>i \<in> bids s. i < order_ids s) \<and> (\<forall>i \<in> asks s. i < order_ids s) \<and>
     bids s \<inter> asks s = {}"

section \<open>Evaluating the handlers\<close>

lemmas limits =
  VOLUME_LIMIT_def LOT_SIZE_def POSITION_SOFT_LIMIT_def POSITION_LIMIT_def
  MARKET_BALANCE_LIMIT_def

lemma to_double_0: "to_double 0 = Finite 0"
  by (simp add: to_double_def round_binary64_def)

lemma int_times_float_0: "int_times_float 0 w = Inr (Finite 0)"
  by (simp add: int_times_float_def float_of_int_def to_double_0)

lemma length_weights: "length weights = 3"
  by (simp add: weights_def)

lemma upt3: "[0..<3] = [0, 1, 2]"
  by (simp add: upt_rec)

text \<open>A book with no volume on the three best levels of either side has score 0.\<close>

lemma assess_market_balance_zero:
  "assess_market_balance (a0 # a1 # a2 # ar) (0 # 0 # 0 # vr)
     (b0 # b1 # b2 # br) (0 # 0 # 0 # wr) = Inr 0"
  by (simp add: assess_market_balance_def length_weights upt3 balance_step_def
      int_times_float_0 float_sub_def to_double_0 trunc_toward_zero_def)

text \<open>
  What the handler returns for the tracked instrument: the score must have been computed,
  and state and instructions are those of the reconciliation with the scaled volumes.
\<close>

lemma book_update_FUTURE:
  "on_order_book_update_message s FUTURE n ap av bp bv = Inr (s', out) \<longleftrightarrow>
   (\<exists>ask0 aps bid0 bps balance. ap = ask0 # aps \<and> bp = bid0 # bps \<and>
      assess_market_balance ap av bp bv = Inr balance \<and>
      (s', out) = reconcile s bid0 ask0
         (fst (scale_volumes (position s) balance
                 (base_bid_volume (position s), base_ask_volume (position s))))
         (snd (scale_volumes (position s) balance
                 (base_bid_volume (position s), base_ask_volume (position s)))))"
  by (auto simp: on_order_book_update_message_def Let_def
      split: list.splits sum.splits prod.splits)

lemma book_update_other:
  "instrument \<noteq> FUTURE \<Longrightarrow>
   on_order_book_update_message s instrument n ap av bp bv = Inr (s, [])"
  by (simp add: on_order_book_update_message_def)

lemma reconcile_inserts:
  assumes "reconcile s bp ap nbv nav = (s', out)"
    and "InsertOrder oid sd pr v l \<in> set out"
  shows "l = GOOD_FOR_DAY \<and>
    (sd = BUY \<longrightarrow> pr = bp \<and> v = nbv \<and> bp \<noteq> 0 \<and> position s + v < 1000) \<and>
    (sd = SELL \<longrightarrow> pr = ap \<and> v = nav \<and> ap \<noteq> 0 \<and> position s - v > - 1000)"
  using assms
  by (auto simp: reconcile_def Let_def cancel_bid_def cancel_ask_def insert_bid_def
      insert_ask_def limits split: if_splits prod.splits)

lemma reconcile_cancels:
  assumes "reconcile s bp ap nbv nav = (s', out)"
  shows "filter is_cancel out =
     (if bid_id s \<noteq> 0 \<and> bp \<noteq> 0 \<and> bp \<noteq> bid_price s then [CancelOrder (bid_id s)] else []) @
     (if ask_id s \<noteq> 0 \<and> ap \<noteq> 0 \<and> ap \<noteq> ask_price s then [CancelOrder (ask_id s)] else [])"
  using assms
  by (auto simp: reconcile_def Let_def cancel_bid_def cancel_ask_def insert_bid_def
      insert_ask_def limits split: if_splits prod.splits)

text \<open>
  The first snapshot of a session: flat position, no live order, a book with prices but no
  volume.  Both sides are quoted with the lot size.
\<close>

lemma first_tick:
  "on_order_book_update_message init_trader FUTURE 1
      [101, 102, 103, 104, 105] [0, 0, 0, 0, 0] [100, 99, 98, 97, 96] [0, 0, 0, 0, 0] =
   Inr (\<lparr>order_ids = 3, bids = {1}, asks = {2}, ask_id = 2, ask_price = 101,
          bid_id = 1, bid_price = 100, position = 0\<rparr>,
        [InsertOrder 1 BUY 100 10 GOOD_FOR_DAY, InsertOrder 2 SELL 101 10 GOOD_FOR_DAY])"
  by (simp add: on_order_book_update_message_def assess_market_balance_zero init_trader_def
      base_bid_volume_def base_ask_volume_def scale_volumes_def limits
      reconcile_def cancel_bid_def cancel_ask_def insert_bid_def insert_ask_def)

section \<open>The hard position limit\<close>

text \<open>
  Claim C1.  Whatever the state (so in particular in every reachable one) and whatever the
  snapshot, every insert instruction the handler emits keeps the position strictly inside
  the hard limit if it is filled completely: a buy of volume \<open>v\<close> is sent only when
  \<open>position + v < 1000\<close>, a sell of volume \<open>v\<close> only when \<open>position - v > -1000\<close>.
\<close>

theorem insert_respects_hard_limit:
  assumes "on_order_book_update_message s instrument n ap av bp bv = Inr (s', out)"
    and "InsertOrder oid sd pr v l \<in> set out"
  shows "(sd = BUY \<longrightarrow> position s + v < 1000) \<and> (sd = SELL \<longrightarrow> position s - v > - 1000)"
proof (cases "instrument = FUTURE")
  case True
  with assms(1) obtain bid0 ask0 nbv nav where "(s', out) = reconcile s bid0 ask0 nbv nav"
    by (auto simp: book_update_FUTURE)
  with reconcile_inserts[of s bid0 ask0 nbv nav s' out oid sd pr v l] assms(2)
  show ?thesis by auto
next
  case False
  with assms show ?thesis by (simp add: book_update_other)
qed

theorem insert_respects_hard_limit_witness:
  "on_order_book_update_message init_trader FUTURE 1
      [101, 102, 103, 104, 105] [0, 0, 0, 0, 0] [100, 99, 98, 97, 96] [0, 0, 0, 0, 0] =
   Inr (\<lparr>order_ids = 3, bids = {1}, asks = {2}, ask_id = 2, ask_price = 101,
          bid_id = 1, bid_price = 100, position = 0\<rparr>,
        [InsertOrder 1 BUY 100 10 GOOD_FOR_DAY, InsertOrder 2 SELL 101 10 GOOD_FOR_DAY]) \<and>
   position init_trader + 10 < 1000 \<and> position init_trader - 10 > - 1000"
  using insert_respects_hard_limit[OF first_tick, of 1 BUY 100 10 GOOD_FOR_DAY]
    insert_respects_hard_limit[OF first_tick, of 2 SELL 101 10 GOOD_FOR_DAY] first_tick
  by simp

section \<open>Properties of the binary64 rounding\<close>

lemma pow2_powi: "pow2 k = 2 powi k"
  by (simp add: pow2_def power_int_def power_inverse[symmetric] field_simps)

lemma pow2_pos: "0 < pow2 k"
  by (simp add: pow2_powi)

lemma pow2_add: "pow2 (a + b) = pow2 a * pow2 b"
  by (simp add: pow2_powi power_int_add)

lemma pow2_mono: "a \<le> b \<Longrightarrow> pow2 a \<le> pow2 b"
  by (simp add: pow2_powi power_int_increasing)

lemma pow2_less_iff: "pow2 a < pow2 b \<longleftrightarrow> a < b"
proof
  assume "pow2 a < pow2 b"
  show "a < b"
  proof (rule ccontr)
    assume "\<not> a < b"
    then have "pow2 b \<le> pow2 a" by (simp add: pow2_mono)
    with \<open>pow2 a < pow2 b\<close> show False by simp
  qed
next
  assume "a < b"
  then show "pow2 a < pow2 b"
    by (simp add: pow2_powi power_int_strict_increasing)
qed

lemma pow2_nat: "0 \<le> k \<Longrightarrow> pow2 k = 2 ^ nat k"
  by (simp add: pow2_def)

lemma pow2_neg: "0 \<le> k \<Longrightarrow> pow2 (- k) = 1 / 2 ^ nat k"
  by (cases "k = 0") (simp_all add: pow2_def)

lemma ilog2_bounds:
  assumes "0 < x"
  shows "pow2 (ilog2 x) \<le> x \<and> x < pow2 (ilog2 x + 1)"
proof (cases "1 \<le> x")
  case True
  then have fl: "0 < \<lfloor>x\<rfloor>" by simp
  from bitlen_bounds[OF fl] have b1: "2 ^ nat (bitlen \<lfloor>x\<rfloor> - 1) \<le> \<lfloor>x\<rfloor>" and b2: "\<lfloor>x\<rfloor> < 2 ^ nat (bitlen \<lfloor>x\<rfloor>)"
    by auto
  from fl have bl: "1 \<le> bitlen \<lfloor>x\<rfloor>" by (auto simp: bitlen_alt_def)
  have "(of_int (2 ^ nat (bitlen \<lfloor>x\<rfloor> - 1)) :: rat) \<le> of_int \<lfloor>x\<rfloor>"
    using b1 by (simp only: of_int_le_iff)
  also have "\<dots> \<le> x" by simp
  finally have lo: "pow2 (bitlen \<lfloor>x\<rfloor> - 1) \<le> x" using bl by (simp add: pow2_nat)
  from b2 have "\<lfloor>x\<rfloor> + 1 \<le> 2 ^ nat (bitlen \<lfloor>x\<rfloor>)" by simp
  then have "(of_int (\<lfloor>x\<rfloor> + 1) :: rat) \<le> of_int (2 ^ nat (bitlen \<lfloor>x\<rfloor>))"
    by (simp only: of_int_le_iff)
  moreover have "x < of_int (\<lfloor>x\<rfloor> + 1)" by linarith
  ultimately have hi: "x < pow2 (bitlen \<lfloor>x\<rfloor>)" using bl by (simp add: pow2_nat)
  from lo hi True show ?thesis by (simp add: ilog2_def)
next
  case False
  define k where "k = \<lceil>1 / x\<rceil> - 1"
  define c where "c = bitlen k"
  from False assms have "1 < 1 / x" by (simp add: field_simps)
  then have "1 < \<lceil>1 / x\<rceil>" by (simp add: less_ceiling_iff)
  then have kpos: "0 < k" by (simp add: k_def)
  from bitlen_bounds[OF kpos] have b1: "2 ^ nat (c - 1) \<le> k" and b2: "k < 2 ^ nat c"
    by (auto simp: c_def)
  from kpos have cl: "1 \<le> c" by (auto simp: bitlen_alt_def c_def)
  have "1 / x \<le> of_int \<lceil>1 / x\<rceil>" by simp
  also have "\<dots> = of_int (k + 1)" by (simp add: k_def)
  also have "(of_int (k + 1) :: rat) \<le> of_int (2 ^ nat c)"
    using b2 by (simp only: of_int_le_iff)
  finally have "1 / x \<le> 2 ^ nat c" by simp
  then have "1 / 2 ^ nat c \<le> x" using assms by (simp add: field_simps)
  then have lo: "pow2 (- c) \<le> x" using cl by (simp add: pow2_neg)
  have "(of_int (2 ^ nat (c - 1)) :: rat) \<le> of_int k" using b1 by (simp only: of_int_le_iff)
  also have "(of_int k :: rat) < 1 / x" unfolding k_def by linarith
  finally have "2 ^ nat (c - 1) < 1 / x" by simp
  then have "x < 1 / 2 ^ nat (c - 1)" using assms by (simp add: field_simps)
  moreover have "pow2 (- (c - 1)) = 1 / 2 ^ nat (c - 1)" using cl by (intro pow2_neg) simp
  ultimately have hi: "x < pow2 (- (c - 1))" by simp
  from lo hi False show ?thesis by (simp add: ilog2_def k_def c_def)
qed

lemma ilog2_eqI:
  assumes "pow2 e \<le> x" and "x < pow2 (e + 1)"
  shows "ilog2 x = e"
proof -
  from assms(1) pow2_pos[of e] have "0 < x" by linarith
  from ilog2_bounds[OF this] have l: "pow2 (ilog2 x) \<le> x" and u: "x < pow2 (ilog2 x + 1)" by auto
  from l assms(2) have "pow2 (ilog2 x) < pow2 (e + 1)" by linarith
  then have "ilog2 x < e + 1" by (simp only: pow2_less_iff)
  moreover from assms(1) u have "pow2 e < pow2 (ilog2 x + 1)" by linarith
  then have "e < ilog2 x + 1" by (simp only: pow2_less_iff)
  ultimately show ?thesis by simp
qed

lemma round_half_even_error: "\<bar>of_int (round_half_even y) - y\<bar> \<le> 1 / 2"
  unfolding round_half_even_def Let_def
  by (auto simp: abs_if not_less) linarith+

lemma round_half_even_eqI:
  assumes "\<bar>y - of_int n\<bar> < 1 / 2"
  shows "round_half_even y = n"
proof -
  have "\<bar>(of_int (round_half_even y) :: rat) - of_int n\<bar> < 1"
    using round_half_even_error[of y] assms by linarith
  then have "\<bar>(of_int (round_half_even y - n) :: rat)\<bar> < 1" by simp
  then have "\<bar>round_half_even y - n\<bar> < 1"
    by (metis of_int_abs of_int_less_1_iff)
  then show ?thesis by simp
qed

lemma round_binary64_quantum:
  assumes "x \<noteq> 0"
  shows "round_binary64 x =
     of_int (round_half_even (x / pow2 (max (ilog2 \<bar>x\<bar>) (- 1022) - 52))) * pow2 (max (ilog2 \<bar>x\<bar>) (- 1022) - 52)"
  using assms by (simp add: round_binary64_def Let_def)

lemma round_to_quantum_error:
  assumes "0 < q"
  shows "\<bar>of_int (round_half_even (x / q)) * q - x\<bar> \<le> q / 2"
proof -
  have "of_int (round_half_even (x / q)) * q - x = (of_int (round_half_even (x / q)) - x / q) * q"
    using assms by (simp add: field_simps)
  then have "\<bar>of_int (round_half_even (x / q)) * q - x\<bar> = \<bar>of_int (round_half_even (x / q)) - x / q\<bar> * q"
    using assms by (simp add: abs_mult)
  also have "\<dots> \<le> (1 / 2) * q"
    using round_half_even_error[of "x / q"] assms by (intro mult_right_mono) auto
  finally show ?thesis by simp
qed

lemma round_binary64_error:
  assumes "\<bar>x\<bar> \<le> M" and "pow2 (- 1022) \<le> M"
  shows "\<bar>round_binary64 x - x\<bar> \<le> M / 2 ^ 53"
proof (cases "x = 0")
  case True
  with assms pow2_pos[of "- 1022"] show ?thesis by (simp add: round_binary64_def)
next
  case False
  define e where "e = max (ilog2 \<bar>x\<bar>) (- 1022)"
  define q where "q = pow2 (e - 52)"
  have qpos: "0 < q" by (simp add: q_def pow2_pos)
  from False have "0 < \<bar>x\<bar>" by simp
  from ilog2_bounds[OF this] have "pow2 (ilog2 \<bar>x\<bar>) \<le> \<bar>x\<bar>" by simp
  with assms have "pow2 e \<le> M" by (simp add: e_def max_def)
  moreover have "q = pow2 e * pow2 (- 52)" using pow2_add[of e "- 52"] by (simp add: q_def)
  moreover have "pow2 (- 52) = 1 / 2 ^ 52" by (simp add: pow2_def)
  ultimately have "q \<le> M / 2 ^ 52" by (simp add: field_simps)
  then have "q / 2 \<le> M / 2 ^ 53" by simp
  moreover have "\<bar>round_binary64 x - x\<bar> \<le> q / 2"
    unfolding round_binary64_quantum[OF False] using round_to_quantum_error[OF qpos, of x]
    by (simp add: q_def e_def)
  ultimately show ?thesis by linarith
qed

lemma round_binary64_eqI:
  assumes "pow2 e \<le> \<bar>x\<bar>" and "\<bar>x\<bar> < pow2 (e + 1)" and "- 1022 \<le> e"
    and "\<bar>x / pow2 (e - 52) - of_int n\<bar> < 1 / 2"
  shows "round_binary64 x = of_int n * pow2 (e - 52)"
proof -
  from assms(1) pow2_pos[of e] have "x \<noteq> 0" by auto
  moreover have "ilog2 \<bar>x\<bar> = e" using assms(1,2) by (rule ilog2_eqI)
  ultimately show ?thesis
    using assms(3) round_half_even_eqI[OF assms(4)]
    by (simp add: round_binary64_quantum max_def)
qed

lemma to_double_finite:
  assumes "\<bar>round_binary64 x\<bar> < 2 ^ 1024"
  shows "to_double x = Finite (round_binary64 x)"
  using assms by (auto simp: to_double_def Let_def)

lemma to_double_bounded:
  assumes "\<bar>x\<bar> \<le> M" and "1 \<le> M" and "M \<le> 2 ^ 1000"
  shows "to_double x = Finite (round_binary64 x) \<and> \<bar>round_binary64 x - x\<bar> \<le> M / 2 ^ 53"
proof -
  have "pow2 (- 1022) \<le> 1" by (simp add: pow2_def)
  with assms have e: "\<bar>round_binary64 x - x\<bar> \<le> M / 2 ^ 53"
    by (intro round_binary64_error) auto
  have "M / 2 ^ 53 \<le> M" using assms by (simp add: field_simps)
  with e assms have "\<bar>round_binary64 x\<bar> \<le> 2 * 2 ^ 1000" by linarith
  also have "\<dots> < (2::rat) ^ 1024" by simp
  finally show ?thesis using e by (simp add: to_double_finite)
qed

lemma weights_values:
  "weights = [3152519739159347 / 2 ^ 52, 3602879701896397 / 2 ^ 54, 3602879701896397 / 2 ^ 55]"
proof -
  have "round_binary64 (7 / 10) = of_int 6305039478318694 * pow2 (- 1 - 52)"
    by (rule round_binary64_eqI) (simp_all add: pow2_def)
  moreover have "round_binary64 (2 / 10) = of_int 7205759403792794 * pow2 (- 3 - 52)"
    by (rule round_binary64_eqI) (simp_all add: pow2_def)
  moreover have "round_binary64 (1 / 10) = of_int 7205759403792794 * pow2 (- 4 - 52)"
    by (rule round_binary64_eqI) (simp_all add: pow2_def)
  ultimately show ?thesis by (simp add: weights_def pow2_def)
qed

lemma round_binary64_int:
  assumes "\<bar>n\<bar> < 2 ^ 53"
  shows "round_binary64 (of_int n) = of_int n"
proof (cases "n = 0")
  case True
  then show ?thesis by (simp add: round_binary64_def)
next
  case False
  define x :: rat where "x = of_int n"
  define e where "e = ilog2 \<bar>x\<bar>"
  from False have xpos: "0 < \<bar>x\<bar>" by (simp add: x_def)
  from ilog2_bounds[OF xpos] have lo: "pow2 e \<le> \<bar>x\<bar>" and hi: "\<bar>x\<bar> < pow2 (e + 1)"
    by (auto simp: e_def)
  from False have "1 \<le> \<bar>n\<bar>" by simp
  then have "(1::rat) \<le> \<bar>x\<bar>" unfolding x_def by (metis of_int_1 of_int_abs of_int_le_iff)
  with hi have "pow2 0 < pow2 (e + 1)" by (simp add: pow2_def)
  then have e0: "0 \<le> e" by (simp only: pow2_less_iff)
  from assms have "\<bar>x\<bar> < 2 ^ 53" unfolding x_def
    by (metis of_int_abs of_int_less_iff of_int_numeral of_int_power)
  with lo have "pow2 e < pow2 53" by (simp add: pow2_def)
  then have e52: "e \<le> 52" by (simp only: pow2_less_iff)
  define k where "k = nat (52 - e)"
  have q: "pow2 (e - 52) = 1 / 2 ^ k"
    using e52 pow2_neg[of "52 - e"] by (simp add: k_def)
  have "x / pow2 (e - 52) = of_int (n * 2 ^ k)" by (simp add: q x_def)
  then have "\<bar>x / pow2 (e - 52) - of_int (n * 2 ^ k)\<bar> < 1 / 2" by simp
  with lo hi e0 have "round_binary64 x = of_int (n * 2 ^ k) * pow2 (e - 52)"
    by (intro round_binary64_eqI) auto
  then show ?thesis by (simp add: q x_def)
qed

lemma float_of_int_exact:
  assumes "\<bar>n\<bar> < 2 ^ 53"
  shows "float_of_int n = Inr (of_int n)"
proof -
  from assms have "\<bar>(of_int n :: rat)\<bar> < 2 ^ 53"
    by (metis of_int_abs of_int_less_iff of_int_numeral of_int_power)
  also have "\<dots> < (2::rat) ^ 1024" by simp
  finally have "to_double (of_int n) = Finite (of_int n)"
    using round_binary64_int[OF assms] by (simp add: to_double_finite)
  then show ?thesis by (simp add: float_of_int_def)
qed

lemma product_approx:
  assumes n: "\<bar>n\<bar> \<le> 2 ^ 32" and w: "0 \<le> w" "w \<le> 1" and wbar: "\<bar>w - wbar\<bar> \<le> 1 / 2 ^ 53"
  shows "\<exists>x. int_times_float n w = Inr (Finite x) \<and> \<bar>x - of_int n * wbar\<bar> \<le> 1 / 2 ^ 20
           \<and> \<bar>of_int n * wbar\<bar> \<le> 2 ^ 32 + 1"
proof -
  define a :: rat where "a = of_int n"
  from n have a: "\<bar>a\<bar> \<le> 2 ^ 32" unfolding a_def
    by (metis of_int_abs of_int_le_iff of_int_numeral of_int_power)
  from n have "\<bar>n\<bar> < 2 ^ 53" by simp
  then have conv: "float_of_int n = Inr a" unfolding a_def by (rule float_of_int_exact)
  have "\<bar>a * w\<bar> = \<bar>a\<bar> * w" using w by (simp add: abs_mult)
  also have "\<dots> \<le> 2 ^ 32 * 1" using a w by (intro mult_mono) auto
  finally have aw: "\<bar>a * w\<bar> \<le> 2 ^ 32" by simp
  from to_double_bounded[OF aw] have fin: "to_double (a * w) = Finite (round_binary64 (a * w))"
    and err: "\<bar>round_binary64 (a * w) - a * w\<bar> \<le> 2 ^ 32 / 2 ^ 53" by auto
  have "\<bar>a * w - a * wbar\<bar> = \<bar>a\<bar> * \<bar>w - wbar\<bar>"
    by (simp add: abs_mult[symmetric] right_diff_distrib)
  also have "\<dots> \<le> 2 ^ 32 * (1 / 2 ^ 53)" using a wbar by (intro mult_mono) auto
  finally have werr: "\<bar>a * w - a * wbar\<bar> \<le> 2 ^ 32 / 2 ^ 53" by simp
  from err werr have "\<bar>round_binary64 (a * w) - a * wbar\<bar> \<le> 1 / 2 ^ 20"
    unfolding abs_le_iff by auto
  moreover from aw werr have "\<bar>a * wbar\<bar> \<le> 2 ^ 32 + 1"
    unfolding abs_le_iff by auto
  ultimately show ?thesis using conv fin by (simp add: int_times_float_def a_def)
qed

lemma sum_approx:
  assumes "\<bar>r - t\<bar> \<le> eps" and "eps \<le> 1" and "\<bar>t\<bar> \<le> 2 ^ 35"
    and "\<bar>x - u\<bar> \<le> 1 / 2 ^ 20" and "\<bar>u\<bar> \<le> 2 ^ 32 + 1"
  shows "\<exists>r'. float_add (Finite r) (Finite x) = Finite r' \<and> \<bar>r' - (t + u)\<bar> \<le> eps + 1 / 2 ^ 16"
proof -
  from assms have m: "\<bar>r + x\<bar> \<le> 2 ^ 36" unfolding abs_le_iff by auto
  from to_double_bounded[OF m] have "to_double (r + x) = Finite (round_binary64 (r + x))"
    and e: "\<bar>round_binary64 (r + x) - (r + x)\<bar> \<le> 2 ^ 36 / 2 ^ 53" by auto
  from e assms(1,4) have "\<bar>round_binary64 (r + x) - (t + u)\<bar> \<le> eps + 1 / 2 ^ 16"
    unfolding abs_le_iff by auto
  with \<open>to_double (r + x) = Finite (round_binary64 (r + x))\<close> show ?thesis by simp
qed

section \<open>Accuracy of the computed score\<close>

lemma balance_step_approx:
  assumes i: "i < length xs" "i < length ys"
    and vols: "\<bar>snd (xs ! i)\<bar> \<le> 2 ^ 32" "\<bar>snd (ys ! i)\<bar> \<le> 2 ^ 32"
    and w: "0 \<le> weights ! i" "weights ! i \<le> 1" "\<bar>weights ! i - wbar\<bar> \<le> 1 / 2 ^ 53"
    and r: "\<bar>r - t\<bar> \<le> eps" "eps \<le> 1 / 2" "\<bar>t\<bar> \<le> 2 ^ 34 + 2 ^ 33"
  shows "\<exists>r'. balance_step xs ys (Finite r) i = Inr (Finite r') \<and>
           \<bar>r' - (t + of_int (snd (xs ! i)) * wbar - of_int (snd (ys ! i)) * wbar)\<bar>
             \<le> eps + 1 / 2 ^ 15"
proof -
  define a :: rat where "a = of_int (snd (xs ! i)) * wbar"
  define b :: rat where "b = of_int (snd (ys ! i)) * wbar"
  from product_approx[OF vols(1) w] obtain x where
    x: "int_times_float (snd (xs ! i)) (weights ! i) = Inr (Finite x)"
       "\<bar>x - a\<bar> \<le> 1 / 2 ^ 20" "\<bar>a\<bar> \<le> 2 ^ 32 + 1"
    unfolding a_def by blast
  from product_approx[OF vols(2) w] obtain y where
    y: "int_times_float (snd (ys ! i)) (weights ! i) = Inr (Finite y)"
       "\<bar>y - b\<bar> \<le> 1 / 2 ^ 20" "\<bar>b\<bar> \<le> 2 ^ 32 + 1"
    unfolding b_def by blast
  from r have r1: "eps \<le> 1" "\<bar>t\<bar> \<le> 2 ^ 35" unfolding abs_le_iff by auto
  from sum_approx[OF r(1) r1 x(2,3)] obtain r1 where
    s1: "float_add (Finite r) (Finite x) = Finite r1" "\<bar>r1 - (t + a)\<bar> \<le> eps + 1 / 2 ^ 16"
    by blast
  from r x(3) have r2: "eps + 1 / 2 ^ 16 \<le> 1" "\<bar>t + a\<bar> \<le> 2 ^ 35"
    unfolding abs_le_iff by auto
  from y have y': "\<bar>- y - (- b)\<bar> \<le> 1 / 2 ^ 20" "\<bar>- b\<bar> \<le> 2 ^ 32 + 1"
    unfolding abs_le_iff by auto
  from sum_approx[OF s1(2) r2 y'] obtain r2 where
    s2: "float_add (Finite r1) (Finite (- y)) = Finite r2"
        "\<bar>r2 - (t + a + - b)\<bar> \<le> eps + 1 / 2 ^ 16 + 1 / 2 ^ 16"
    by blast
  from s2(2) have "\<bar>r2 - (t + a - b)\<bar> \<le> eps + 1 / 2 ^ 15" by simp
  moreover have "balance_step xs ys (Finite r) i = Inr (Finite r2)"
    using i x(1) y(1) s1(1) s2(1) by (simp add: balance_step_def float_sub_def)
  ultimately show ?thesis unfolding a_def b_def by blast
qed

lemma weights_close:
  "0 \<le> weights ! 0 \<and> weights ! 0 \<le> 1 \<and> \<bar>weights ! 0 - 7 / 10\<bar> \<le> 1 / 2 ^ 53"
  "0 \<le> weights ! 1 \<and> weights ! 1 \<le> 1 \<and> \<bar>weights ! 1 - 2 / 10\<bar> \<le> 1 / 2 ^ 53"
  "0 \<le> weights ! 2 \<and> weights ! 2 \<le> 1 \<and> \<bar>weights ! 2 - 1 / 10\<bar> \<le> 1 / 2 ^ 53"
  by (simp_all add: weights_values)

lemma rat_abs_int_le:
  fixes n :: int
  assumes "\<bar>n\<bar> \<le> 2 ^ 32"
  shows "\<bar>of_int n :: rat\<bar> \<le> 2 ^ 32"
  using assms by (metis of_int_abs of_int_le_iff of_int_numeral of_int_power)

lemma assess_approx:
  assumes vols: "\<bar>a0\<bar> \<le> 2 ^ 32" "\<bar>a1\<bar> \<le> 2 ^ 32" "\<bar>a2\<bar> \<le> 2 ^ 32"
      "\<bar>b0\<bar> \<le> 2 ^ 32" "\<bar>b1\<bar> \<le> 2 ^ 32" "\<bar>b2\<bar> \<le> 2 ^ 32"
  shows "\<exists>F. assess_market_balance (p0 # p1 # p2 # pr) (a0 # a1 # a2 # ar)
                (q0 # q1 # q2 # qr) (b0 # b1 # b2 # br) = Inr (trunc_toward_zero F) \<and>
              \<bar>F - of_int (7 * a0 + 2 * a1 + a2 - (7 * b0 + 2 * b1 + b2)) / 1000\<bar> \<le> 1 / 2 ^ 12"
proof -
  define xs where "xs = [(p0, a0), (p1, a1), (p2, a2)]"
  define ys where "ys = [(q0, b0), (q1, b1), (q2, b2)]"
  define A0 A1 A2 B0 B1 B2 :: rat where
    "A0 = of_int a0" and "A1 = of_int a1" and "A2 = of_int a2" and
    "B0 = of_int b0" and "B1 = of_int b1" and "B2 = of_int b2"
  have bnd: "\<bar>A0\<bar> \<le> 2 ^ 32" "\<bar>A1\<bar> \<le> 2 ^ 32" "\<bar>A2\<bar> \<le> 2 ^ 32"
       "\<bar>B0\<bar> \<le> 2 ^ 32" "\<bar>B1\<bar> \<le> 2 ^ 32" "\<bar>B2\<bar> \<le> 2 ^ 32"
    unfolding A0_def A1_def A2_def B0_def B1_def B2_def
    by (rule rat_abs_int_le, rule vols)+
  define t1 where "t1 = 0 + A0 * (7 / 10) - B0 * (7 / 10)"
  define t2 where "t2 = t1 + A1 * (2 / 10) - B1 * (2 / 10)"
  define t3 where "t3 = t2 + A2 * (1 / 10) - B2 * (1 / 10)"
  have tb: "\<bar>t1\<bar> \<le> 2 ^ 34 + 2 ^ 33" "\<bar>t2\<bar> \<le> 2 ^ 34 + 2 ^ 33" "\<bar>t3\<bar> \<le> 2 ^ 34 + 2 ^ 33"
    using bnd unfolding t1_def t2_def t3_def abs_le_iff by auto
  have "\<exists>r'. balance_step xs ys (Finite 0) 0 = Inr (Finite r') \<and>
           \<bar>r' - (0 + of_int (snd (xs ! 0)) * (7 / 10) - of_int (snd (ys ! 0)) * (7 / 10))\<bar>
             \<le> 0 + 1 / 2 ^ 15"
    using weights_close(1) vols by (intro balance_step_approx) (simp_all add: xs_def ys_def)
  then obtain r1 where r1: "balance_step xs ys (Finite 0) 0 = Inr (Finite r1)"
      "\<bar>r1 - t1\<bar> \<le> 1 / 2 ^ 15"
    unfolding t1_def A0_def B0_def by (auto simp: xs_def ys_def)
  have "\<exists>r'. balance_step xs ys (Finite r1) 1 = Inr (Finite r') \<and>
           \<bar>r' - (t1 + of_int (snd (xs ! 1)) * (2 / 10) - of_int (snd (ys ! 1)) * (2 / 10))\<bar>
             \<le> 1 / 2 ^ 15 + 1 / 2 ^ 15"
    using weights_close(2) vols r1(2) tb(1)
    by (intro balance_step_approx) (simp_all add: xs_def ys_def)
  then obtain r2 where r2: "balance_step xs ys (Finite r1) 1 = Inr (Finite r2)"
      "\<bar>r2 - t2\<bar> \<le> 1 / 2 ^ 14"
    unfolding t2_def A1_def B1_def by (auto simp: xs_def ys_def)
  have "\<exists>r'. balance_step xs ys (Finite r2) 2 = Inr (Finite r') \<and>
           \<bar>r' - (t2 + of_int (snd (xs ! 2)) * (1 / 10) - of_int (snd (ys ! 2)) * (1 / 10))\<bar>
             \<le> 1 / 2 ^ 14 + 1 / 2 ^ 15"
    using weights_close(3) vols r2(2) tb(2)
    by (intro balance_step_approx) (simp_all add: xs_def ys_def)
  then obtain r3 where r3: "balance_step xs ys (Finite r2) 2 = Inr (Finite r3)"
      "\<bar>r3 - t3\<bar> \<le> 1 / 2 ^ 13"
    unfolding t3_def A2_def B2_def abs_le_iff by (auto simp: xs_def ys_def)
  have loop: "balance_loop xs ys [0..<3] (Finite 0) = Inr (Finite r3)"
    using r1(1) r2(1) r3(1) by (simp add: upt3)
  from r3(2) tb(3) have m: "\<bar>r3 / 100\<bar> \<le> 2 ^ 36" unfolding abs_le_iff by auto
  from to_double_bounded[OF m] have fin: "to_double (r3 / 100) = Finite (round_binary64 (r3 / 100))"
    and err: "\<bar>round_binary64 (r3 / 100) - r3 / 100\<bar> \<le> 2 ^ 36 / 2 ^ 53" by auto
  have ex: "of_int (7 * a0 + 2 * a1 + a2 - (7 * b0 + 2 * b1 + b2)) / 1000 = t3 / 100"
    by (simp add: t3_def t2_def t1_def A0_def A1_def A2_def B0_def B1_def B2_def)
  from err r3(2) have "\<bar>round_binary64 (r3 / 100) - t3 / 100\<bar> \<le> 1 / 2 ^ 12"
    unfolding abs_le_iff by auto
  moreover have "assess_market_balance (p0 # p1 # p2 # pr) (a0 # a1 # a2 # ar)
                (q0 # q1 # q2 # qr) (b0 # b1 # b2 # br)
       = Inr (trunc_toward_zero (round_binary64 (r3 / 100)))"
    using loop fin by (simp add: assess_market_balance_def length_weights xs_def ys_def)
  ultimately show ?thesis unfolding ex by blast
qed

lemma spec_balance_Cons:
  "spec_balance (a0 # a1 # a2 # ar) (b0 # b1 # b2 # br) =
     of_int (7 * a0 + 2 * a1 + a2 - (7 * b0 + 2 * b1 + b2)) / 1000"
  by (simp add: spec_balance_def level_volume_def)

lemma trunc_near_fraction:
  fixes N :: int
  assumes F: "\<bar>F - of_int N / 1000\<bar> \<le> 1 / 2 ^ 12" and N: "N mod 1000 \<noteq> 0"
  shows "trunc_toward_zero F = trunc_toward_zero (of_int N / 1000)"
proof -
  define q where "q = N div 1000"
  define r where "r = N mod 1000"
  have r: "1 \<le> r" "r \<le> 999" using N by (auto simp: r_def)
  have "N = 1000 * q + r" by (simp add: q_def r_def)
  then have E: "(of_int N :: rat) / 1000 = of_int q + of_int r / 1000" by simp
  have rr: "(1::rat) \<le> of_int r" "(of_int r :: rat) \<le> 999" using r by simp_all
  define E where "E = (of_int N :: rat) / 1000"
  have Eb: "of_int q + 1 / 1000 \<le> E" "E \<le> of_int q + 999 / 1000"
    using rr unfolding E_def \<open>of_int N / 1000 = of_int q + of_int r / 1000\<close> by auto
  from F Eb have Fb: "of_int q < F" "F < of_int q + 1" unfolding E_def[symmetric] abs_le_iff by auto
  have fF: "\<lfloor>F\<rfloor> = q" using Fb by (intro floor_unique) auto
  have cF: "\<lceil>F\<rceil> = q + 1" using Fb by (intro ceiling_unique) auto
  have fE: "\<lfloor>E\<rfloor> = q" using Eb by (intro floor_unique) auto
  have cE: "\<lceil>E\<rceil> = q + 1" using Eb by (intro ceiling_unique) auto
  have sg: "0 \<le> F \<longleftrightarrow> 0 \<le> q" "0 \<le> E \<longleftrightarrow> 0 \<le> q"
    using fF fE by (metis zero_le_floor)+
  show ?thesis unfolding E_def[symmetric] by (simp add: trunc_toward_zero_def fF cF fE cE sg)
qed

lemma trunc_near_zero:
  assumes "\<bar>F\<bar> \<le> 1 / 2 ^ 12"
  shows "trunc_toward_zero F = 0"
proof (cases "0 \<le> F")
  case True
  with assms have "\<lfloor>F\<rfloor> = 0" by (intro floor_unique) auto
  with True show ?thesis by (simp add: trunc_toward_zero_def)
next
  case False
  with assms have "\<lceil>F\<rceil> = 0" unfolding abs_le_iff by (intro ceiling_unique) auto
  with False show ?thesis by (simp add: trunc_toward_zero_def)
qed

lemma trunc_near_integer:
  fixes k :: int
  assumes F: "\<bar>F - of_int k\<bar> \<le> 1 / 2 ^ 12" and k: "k \<noteq> 0"
  shows "trunc_toward_zero F = k \<or> trunc_toward_zero F = k - sgn k"
proof (cases "0 < k")
  case True
  then have "(1::rat) \<le> of_int k" by simp
  with F have pos: "0 \<le> F" unfolding abs_le_iff by auto
  show ?thesis
  proof (cases "of_int k \<le> F")
    case True
    with F have "\<lfloor>F\<rfloor> = k" unfolding abs_le_iff by (intro floor_unique) auto
    with pos show ?thesis by (simp add: trunc_toward_zero_def)
  next
    case False
    with F have "\<lfloor>F\<rfloor> = k - 1" unfolding abs_le_iff by (intro floor_unique) auto
    with pos \<open>0 < k\<close> show ?thesis by (simp add: trunc_toward_zero_def)
  qed
next
  case False
  with k have kneg: "k < 0" by simp
  then have "k \<le> - 1" by simp
  then have "(of_int k :: rat) \<le> of_int (- 1)" by (simp only: of_int_le_iff)
  then have "(of_int k :: rat) \<le> - 1" by simp
  with F have neg: "\<not> 0 \<le> F" unfolding abs_le_iff by auto
  show ?thesis
  proof (cases "F \<le> of_int k")
    case True
    with F have "\<lceil>F\<rceil> = k" unfolding abs_le_iff by (intro ceiling_unique) auto
    with neg show ?thesis by (simp add: trunc_toward_zero_def)
  next
    case False
    with F have "\<lceil>F\<rceil> = k + 1" unfolding abs_le_iff by (intro ceiling_unique) auto
    with neg kneg show ?thesis by (simp add: trunc_toward_zero_def)
  qed
qed

lemma assess_market_balance_exact:
  assumes vols: "\<bar>a0\<bar> \<le> 2 ^ 32" "\<bar>a1\<bar> \<le> 2 ^ 32" "\<bar>a2\<bar> \<le> 2 ^ 32"
      "\<bar>b0\<bar> \<le> 2 ^ 32" "\<bar>b1\<bar> \<le> 2 ^ 32" "\<bar>b2\<bar> \<le> 2 ^ 32"
    and N: "(7 * a0 + 2 * a1 + a2 - (7 * b0 + 2 * b1 + b2)) mod 1000 \<noteq> 0
            \<or> 7 * a0 + 2 * a1 + a2 - (7 * b0 + 2 * b1 + b2) = 0"
  shows "assess_market_balance (p0 # p1 # p2 # pr) (a0 # a1 # a2 # ar)
           (q0 # q1 # q2 # qr) (b0 # b1 # b2 # br)
         = Inr (trunc_toward_zero (of_int (7 * a0 + 2 * a1 + a2 - (7 * b0 + 2 * b1 + b2)) / 1000))"
proof -
  define N where "N = 7 * a0 + 2 * a1 + a2 - (7 * b0 + 2 * b1 + b2)"
  from assess_approx[OF vols, of p0 p1 p2 pr ar q0 q1 q2 qr br] obtain F where
    F: "assess_market_balance (p0 # p1 # p2 # pr) (a0 # a1 # a2 # ar)
           (q0 # q1 # q2 # qr) (b0 # b1 # b2 # br) = Inr (trunc_toward_zero F)"
       "\<bar>F - of_int N / 1000\<bar> \<le> 1 / 2 ^ 12"
    unfolding N_def by blast
  have "trunc_toward_zero F = trunc_toward_zero (of_int N / 1000)"
  proof (cases "N = 0")
    case True
    with F(2) have "trunc_toward_zero F = 0" by (intro trunc_near_zero) simp
    with True show ?thesis by (simp add: trunc_toward_zero_def)
  next
    case False
    with N have "N mod 1000 \<noteq> 0" by (simp add: N_def)
    with F(2) show ?thesis by (rule trunc_near_fraction)
  qed
  with F(1) show ?thesis by (simp add: N_def)
qed

lemma trunc_toward_zero_pos:
  assumes "0 \<le> a" and "of_int k \<le> a" and "a < of_int k + 1"
  shows "trunc_toward_zero a = k"
proof -
  from assms(2,3) have "\<lfloor>a\<rfloor> = k" by (rule floor_unique)
  with assms(1) show ?thesis by (simp add: trunc_toward_zero_def)
qed

lemma trunc_toward_zero_neg:
  assumes "a < 0" and "of_int k - 1 < a" and "a \<le> of_int k"
  shows "trunc_toward_zero a = k"
proof -
  from assms(2,3) have "\<lceil>a\<rceil> = k" by (rule ceiling_unique)
  with assms(1) show ?thesis by (simp add: trunc_toward_zero_def)
qed

lemma to_double_eqI:
  assumes "round_binary64 x = r" and "\<bar>r\<bar> < 2 ^ 1024"
  shows "to_double x = Finite r"
  using assms to_double_finite[of x] by simp

lemma trunc_of_int: "trunc_toward_zero (of_int k) = k"
  by (simp add: trunc_toward_zero_def)

lemma round_11000: "round_binary64 (11000 * (3152519739159347 / 2 ^ 52)) = 8466239533875199 / 2 ^ 40"
proof -
  have "round_binary64 (11000 * (3152519739159347 / 2 ^ 52)) = of_int 8466239533875199 * pow2 (12 - 52)"
    by (rule round_binary64_eqI) (simp_all add: pow2_def)
  then show ?thesis by (simp add: pow2_def)
qed

lemma round_7700: "round_binary64 (8466239533875199 / 2 ^ 40) = 8466239533875199 / 2 ^ 40"
proof -
  have "round_binary64 (8466239533875199 / 2 ^ 40) = of_int 8466239533875199 * pow2 (12 - 52)"
    by (rule round_binary64_eqI) (simp_all add: pow2_def)
  then show ?thesis by (simp add: pow2_def)
qed

lemma round_77: "round_binary64 (8466239533875199 / 2 ^ 40 / 100) = 5418393301680127 / 2 ^ 46"
proof -
  have "round_binary64 (8466239533875199 / 2 ^ 40 / 100) = of_int 5418393301680127 * pow2 (6 - 52)"
    by (rule round_binary64_eqI) (simp_all add: pow2_def)
  then show ?thesis by (simp add: pow2_def)
qed


section \<open>Volumes and the ledger invariant\<close>

lemma scale_volumes_cases:
  "scale_volumes p b (x, y) =
     (if p \<le> 600 then
        (if b > 0 then (x * min b 2, y) else if b < 0 then (x, y * min \<bar>b\<bar> 2) else (x, y))
      else (x, y))"
  by (simp add: scale_volumes_def limits Let_def min_def)

lemma base_bounds: "10 \<le> base_bid_volume p \<and> base_bid_volume p \<le> 190 \<and> 10 \<le> base_ask_volume p \<and> base_ask_volume p \<le> 190"
  by (simp add: base_bid_volume_def base_ask_volume_def limits)

lemma mult_le_2: 
  fixes x m :: int
  assumes "0 \<le> x" "x \<le> 190" "m \<le> 2"
  shows "x * m \<le> 380"
proof -
  have "x * m \<le> x * 2" using assms by (intro mult_left_mono) auto
  with assms show ?thesis by linarith
qed

lemma scaled_bounds:
  assumes "10 \<le> x" "x \<le> 190" "10 \<le> y" "y \<le> 190"
  shows "fst (scale_volumes p b (x, y)) \<le> 380 \<and> snd (scale_volumes p b (x, y)) \<le> 380"
  using assms mult_le_2[of x "min b 2"] mult_le_2[of y "min (- b) 2"]
  by (auto simp: scale_volumes_cases)

lemma cancel_bid_inv: "ledger_inv s \<Longrightarrow> ledger_inv (fst (cancel_bid s p))"
  by (auto simp: cancel_bid_def ledger_inv_def)

lemma cancel_ask_inv: "ledger_inv s \<Longrightarrow> ledger_inv (fst (cancel_ask s p))"
  by (auto simp: cancel_ask_def ledger_inv_def)

lemma insert_bid_inv: "ledger_inv s \<Longrightarrow> ledger_inv (fst (insert_bid s p v))"
  by (auto simp: insert_bid_def ledger_inv_def Let_def)

lemma insert_ask_inv: "ledger_inv s \<Longrightarrow> ledger_inv (fst (insert_ask s p v))"
  by (auto simp: insert_ask_def ledger_inv_def Let_def)

lemma reconcile_state:
  "fst (reconcile s bp ap nbv nav) =
     fst (insert_ask (fst (insert_bid (fst (cancel_ask (fst (cancel_bid s bp)) ap)) bp nbv)) ap nav)"
  by (simp add: reconcile_def Let_def split: prod.splits)

lemma reconcile_inv:
  assumes "ledger_inv s" and "reconcile s bp ap nbv nav = (s', out)"
  shows "ledger_inv s'"
proof -
  have "s' = fst (reconcile s bp ap nbv nav)" using assms(2) by simp
  then show ?thesis
    unfolding reconcile_state
    by (simp add: assms(1) cancel_bid_inv cancel_ask_inv insert_bid_inv insert_ask_inv)
qed

lemma status_inv: "ledger_inv s \<Longrightarrow> ledger_inv (on_order_status_message s oid fv rv fees)"
  by (auto simp: on_order_status_message_def ledger_inv_def Let_def)

lemma fill_inv: "ledger_inv s \<Longrightarrow> ledger_inv (on_order_filled_message s oid pr v)"
  by (auto simp: on_order_filled_message_def ledger_inv_def)

lemma reachable_inv: "reachable s \<Longrightarrow> ledger_inv s"
proof (induction rule: reachable.induct)
  case reach_init
  show ?case by (simp add: ledger_inv_def init_trader_def)
next
  case (reach_book s instrument n ap av bp bv s' out)
  show ?case
  proof (cases "instrument = FUTURE")
    case True
    with reach_book.hyps(2) obtain bid0 ask0 nbv nav where "reconcile s bid0 ask0 nbv nav = (s', out)"
      by (auto simp: book_update_FUTURE)
    with reach_book.IH show ?thesis by (rule reconcile_inv)
  next
    case False
    with reach_book show ?thesis by (simp add: book_update_other)
  qed
next
  case (reach_fill s oid pr v)
  then show ?case by (simp add: fill_inv)
next
  case (reach_status s oid fv rv fees)
  then show ?case by (simp add: status_inv)
next
  case (reach_error s oid d s')
  then show ?case by (auto simp: on_error_message_def status_inv split: if_splits)
qed

section \<open>Some concrete snapshots\<close>

text \<open>
  Scores of books with 300 lots on the best level of one side only, and the handler run on
  them in a few states.  Prices do not enter the score.
\<close>

lemma score_heavy_asks:
  "assess_market_balance (p0 # p1 # p2 # pr) [300, 0, 0, 0, 0] (q0 # q1 # q2 # qr) [0, 0, 0, 0, 0] = Inr 2"
proof -
  have "assess_market_balance (p0 # p1 # p2 # pr) [300, 0, 0, 0, 0] (q0 # q1 # q2 # qr) [0, 0, 0, 0, 0]
     = Inr (trunc_toward_zero (of_int (7 * 300 + 2 * 0 + 0 - (7 * 0 + 2 * 0 + 0)) / 1000))"
    by (rule assess_market_balance_exact) simp_all
  moreover have "trunc_toward_zero (of_int (7 * 300 + 2 * 0 + 0 - (7 * 0 + 2 * 0 + 0)) / 1000) = 2"
    by (rule trunc_toward_zero_pos) simp_all
  ultimately show ?thesis by simp
qed

lemma score_heavy_bids:
  "assess_market_balance (p0 # p1 # p2 # pr) [0, 0, 0, 0, 0] (q0 # q1 # q2 # qr) [300, 0, 0, 0, 0] = Inr (- 2)"
proof -
  have "assess_market_balance (p0 # p1 # p2 # pr) [0, 0, 0, 0, 0] (q0 # q1 # q2 # qr) [300, 0, 0, 0, 0]
     = Inr (trunc_toward_zero (of_int (7 * 0 + 2 * 0 + 0 - (7 * 300 + 2 * 0 + 0)) / 1000))"
    by (rule assess_market_balance_exact) simp_all
  moreover have "trunc_toward_zero (of_int (7 * 0 + 2 * 0 + 0 - (7 * 300 + 2 * 0 + 0)) / 1000) = - 2"
    by (rule trunc_toward_zero_neg) simp_all
  ultimately show ?thesis by simp
qed

lemmas tick_defs =
  on_order_book_update_message_def base_bid_volume_def base_ask_volume_def scale_volumes_def
  limits reconcile_def cancel_bid_def cancel_ask_def insert_bid_def insert_ask_def Let_def

lemma short_tick:
  "on_order_book_update_message
      \<lparr>order_ids = 1, bids = {}, asks = {}, ask_id = 0, ask_price = 0,
       bid_id = 0, bid_price = 0, position = - 700\<rparr> FUTURE 1
      [101, 102, 103, 104, 105] [300, 0, 0, 0, 0] [100, 99, 98, 97, 96] [0, 0, 0, 0, 0] =
   Inr (\<lparr>order_ids = 3, bids = {1}, asks = {2}, ask_id = 2, ask_price = 101,
          bid_id = 1, bid_price = 100, position = - 700\<rparr>,
        [InsertOrder 1 BUY 100 380 GOOD_FOR_DAY, InsertOrder 2 SELL 101 10 GOOD_FOR_DAY])"
  by (simp add: tick_defs score_heavy_asks)

lemma long_tick:
  "on_order_book_update_message
      \<lparr>order_ids = 1, bids = {}, asks = {}, ask_id = 0, ask_price = 0,
       bid_id = 0, bid_price = 0, position = 650\<rparr> FUTURE 1
      [101, 102, 103, 104, 105] [300, 0, 0, 0, 0] [100, 99, 98, 97, 96] [0, 0, 0, 0, 0] =
   Inr (\<lparr>order_ids = 3, bids = {1}, asks = {2}, ask_id = 2, ask_price = 101,
          bid_id = 1, bid_price = 100, position = 650\<rparr>,
        [InsertOrder 1 BUY 100 10 GOOD_FOR_DAY, InsertOrder 2 SELL 101 190 GOOD_FOR_DAY])"
  by (simp add: tick_defs score_heavy_asks)

lemma second_tick:
  "on_order_book_update_message
      \<lparr>order_ids = 3, bids = {1}, asks = {2}, ask_id = 2, ask_price = 101,
       bid_id = 1, bid_price = 100, position = 0\<rparr> FUTURE 2
      [101, 102, 103, 104, 105] [0, 0, 0, 0, 0] [99, 98, 97, 96, 95] [0, 0, 0, 0, 0] =
   Inr (\<lparr>order_ids = 4, bids = {3, 1}, asks = {2}, ask_id = 2, ask_price = 101,
          bid_id = 3, bid_price = 99, position = 0\<rparr>,
        [CancelOrder 1, InsertOrder 3 BUY 99 10 GOOD_FOR_DAY])"
  by (simp add: tick_defs assess_market_balance_zero)

lemma reachable_first: 
  "reachable \<lparr>order_ids = 3, bids = {1}, asks = {2}, ask_id = 2, ask_price = 101,
       bid_id = 1, bid_price = 100, position = 0\<rparr>"
  using reach_book[OF reach_init first_tick] .

section \<open>The soft limit and the scaling\<close>

text \<open>
  Claim C2, as the code has it.  On a snapshot of the tracked instrument that the handler
  accepts, the score \<open>b\<close> was computed, and every insert carries the base volume of its
  side, multiplied by \<open>min b 2\<close> (buy side, for \<open>b > 0\<close>) or by \<open>min \<bar>b\<bar> 2\<close> (sell side,
  for \<open>b < 0\<close>) exactly when \<open>position \<le> 600\<close>.  The test is on the signed position: above
  600 the base volumes are used unchanged, and every position at or below 600, however
  short, is scaled.
\<close>

theorem scaling_gate_is_signed:
  assumes "on_order_book_update_message s FUTURE n ap av bp bv = Inr (s', out)"
  shows "\<exists>b. assess_market_balance ap av bp bv = Inr b \<and>
     (\<forall>oid pr v l. InsertOrder oid BUY pr v l \<in> set out \<longrightarrow>
        v = (if position s \<le> 600 \<and> 0 < b then base_bid_volume (position s) * min b 2
             else base_bid_volume (position s))) \<and>
     (\<forall>oid pr v l. InsertOrder oid SELL pr v l \<in> set out \<longrightarrow>
        v = (if position s \<le> 600 \<and> b < 0 then base_ask_volume (position s) * min \<bar>b\<bar> 2
             else base_ask_volume (position s)))"
proof -
  from assms obtain bid0 ask0 b where b: "assess_market_balance ap av bp bv = Inr b"
    and r: "reconcile s bid0 ask0
         (fst (scale_volumes (position s) b (base_bid_volume (position s), base_ask_volume (position s))))
         (snd (scale_volumes (position s) b (base_bid_volume (position s), base_ask_volume (position s))))
        = (s', out)"
    by (auto simp: book_update_FUTURE)
  have "v = (if position s \<le> 600 \<and> 0 < b then base_bid_volume (position s) * min b 2
             else base_bid_volume (position s))"
    if "InsertOrder oid BUY pr v l \<in> set out" for oid pr v l
    using reconcile_inserts[OF r that] by (simp add: scale_volumes_cases)
  moreover have "v = (if position s \<le> 600 \<and> b < 0 then base_ask_volume (position s) * min \<bar>b\<bar> 2
             else base_ask_volume (position s))"
    if "InsertOrder oid SELL pr v l \<in> set out" for oid pr v l
    using reconcile_inserts[OF r that] by (simp add: scale_volumes_cases)
  ultimately show ?thesis using b by blast
qed

text \<open>
  The theorem at a long position of 650 with score 2: no scaling, the bid is the lot size
  and the ask is the capped inventory.
\<close>

theorem scaling_gate_is_signed_witness:
  "on_order_book_update_message
      \<lparr>order_ids = 1, bids = {}, asks = {}, ask_id = 0, ask_price = 0,
       bid_id = 0, bid_price = 0, position = 650\<rparr> FUTURE 1
      [101, 102, 103, 104, 105] [300, 0, 0, 0, 0] [100, 99, 98, 97, 96] [0, 0, 0, 0, 0] =
   Inr (\<lparr>order_ids = 3, bids = {1}, asks = {2}, ask_id = 2, ask_price = 101,
          bid_id = 1, bid_price = 100, position = 650\<rparr>,
        [InsertOrder 1 BUY 100 10 GOOD_FOR_DAY, InsertOrder 2 SELL 101 190 GOOD_FOR_DAY]) \<and>
   assess_market_balance [101, 102, 103, 104, 105] [300, 0, 0, 0, 0]
      [100, 99, 98, 97, 96] [0, 0, 0, 0, 0] = Inr 2 \<and>
   base_bid_volume 650 = 10 \<and> base_ask_volume 650 = 190"
  using scaling_gate_is_signed[OF long_tick] long_tick score_heavy_asks
  by (simp add: base_bid_volume_def base_ask_volume_def limits)

text \<open>
  Claim C2 as stated fails for short positions: at position \<open>-700\<close>, whose magnitude is
  above 600, a score of 2 doubles the bid from its base volume 190 to 380.
\<close>

theorem scaling_outside_band_counterexample:
  "600 < \<bar>- 700 :: int\<bar> \<and>
   on_order_book_update_message
      \<lparr>order_ids = 1, bids = {}, asks = {}, ask_id = 0, ask_price = 0,
       bid_id = 0, bid_price = 0, position = - 700\<rparr> FUTURE 1
      [101, 102, 103, 104, 105] [300, 0, 0, 0, 0] [100, 99, 98, 97, 96] [0, 0, 0, 0, 0] =
   Inr (\<lparr>order_ids = 3, bids = {1}, asks = {2}, ask_id = 2, ask_price = 101,
          bid_id = 1, bid_price = 100, position = - 700\<rparr>,
        [InsertOrder 1 BUY 100 380 GOOD_FOR_DAY, InsertOrder 2 SELL 101 10 GOOD_FOR_DAY]) \<and>
   base_bid_volume (- 700) = 190"
  using short_tick by (simp add: base_bid_volume_def limits)

text \<open>
  Claim C3.  Where the scaling applies (\<open>position \<le> 600\<close>), a positive score multiplies
  the bid volume by \<open>min score 2\<close>, a negative score multiplies the ask volume by
  \<open>min \<bar>score\<bar> 2\<close>, a zero score changes nothing, and the multiplier is between 1 and 2.
\<close>

theorem scaling_multiplier_clamped:
  assumes "pos \<le> 600"
  shows "scale_volumes pos b (bid_volume, ask_volume) =
           (if 0 < b then (bid_volume * min b 2, ask_volume)
            else if b < 0 then (bid_volume, ask_volume * min \<bar>b\<bar> 2)
            else (bid_volume, ask_volume)) \<and>
         (0 < b \<longrightarrow> 1 \<le> min b 2 \<and> min b 2 \<le> 2) \<and>
         (b < 0 \<longrightarrow> 1 \<le> min \<bar>b\<bar> 2 \<and> min \<bar>b\<bar> 2 \<le> 2)"
  using assms by (auto simp: scale_volumes_cases)

theorem scaling_multiplier_clamped_witness:
  "(0 :: int) \<le> 600 \<and> (0 :: int) < 5 \<and> (- 7 :: int) < 0 \<and>
   scale_volumes 0 5 (10, 10) = (20, 10) \<and> scale_volumes 0 (- 7) (10, 10) = (10, 20)"
  using scaling_multiplier_clamped[of 0 5 10 10] scaling_multiplier_clamped[of 0 "- 7" 10 10]
  by simp

section \<open>The score against the formula of the spec\<close>

text \<open>
  Claim C4, as the code has it.  For a book with at least three levels per side whose
  three best volumes are at most \<open>2^32\<close> in magnitude, \<open>assess_market_balance\<close> returns a
  score, and it is the spec's exact score \<open>(\<Sum> w\<^sub>i ask\<^sub>i - \<Sum> w\<^sub>i bid\<^sub>i) / 100\<close> truncated
  toward zero, with one exception: when the exact score before truncation is a nonzero
  integer (the weighted difference times ten is a nonzero multiple of 1000), rounding in the
  floating-point computation may give the integer one closer to zero.
\<close>

theorem score_is_exact_off_integers:
  assumes "\<bar>a0\<bar> \<le> 2 ^ 32" "\<bar>a1\<bar> \<le> 2 ^ 32" "\<bar>a2\<bar> \<le> 2 ^ 32"
      "\<bar>b0\<bar> \<le> 2 ^ 32" "\<bar>b1\<bar> \<le> 2 ^ 32" "\<bar>b2\<bar> \<le> 2 ^ 32"
  shows "\<exists>k. assess_market_balance (p0 # p1 # p2 # pr) (a0 # a1 # a2 # ar)
               (q0 # q1 # q2 # qr) (b0 # b1 # b2 # br) = Inr k \<and>
             (k = spec_score (a0 # a1 # a2 # ar) (b0 # b1 # b2 # br) \<or>
              7 * a0 + 2 * a1 + a2 - (7 * b0 + 2 * b1 + b2) \<noteq> 0 \<and>
              1000 dvd 7 * a0 + 2 * a1 + a2 - (7 * b0 + 2 * b1 + b2) \<and>
              k = spec_score (a0 # a1 # a2 # ar) (b0 # b1 # b2 # br)
                    - sgn (spec_score (a0 # a1 # a2 # ar) (b0 # b1 # b2 # br)))"
proof -
  define N where "N = 7 * a0 + 2 * a1 + a2 - (7 * b0 + 2 * b1 + b2)"
  have sb: "spec_balance (a0 # a1 # a2 # ar) (b0 # b1 # b2 # br) = of_int N / 1000"
    by (simp add: spec_balance_Cons N_def)
  show ?thesis
  proof (cases "N mod 1000 \<noteq> 0 \<or> N = 0")
    case True
    then have "assess_market_balance (p0 # p1 # p2 # pr) (a0 # a1 # a2 # ar)
           (q0 # q1 # q2 # qr) (b0 # b1 # b2 # br) = Inr (trunc_toward_zero (of_int N / 1000))"
      unfolding N_def by (intro assess_market_balance_exact assms)
    then show ?thesis by (simp add: spec_score_def sb)
  next
    case False
    then have m: "N mod 1000 = 0" and nz: "N \<noteq> 0" by auto
    define k where "k = N div 1000"
    from m have Nk: "N = 1000 * k" by (auto simp: k_def)
    with nz have k0: "k \<noteq> 0" by auto
    have E: "(of_int N :: rat) / 1000 = of_int k" by (simp add: Nk)
    from assess_approx[OF assms, of p0 p1 p2 pr ar q0 q1 q2 qr br] obtain F where
      F: "assess_market_balance (p0 # p1 # p2 # pr) (a0 # a1 # a2 # ar)
             (q0 # q1 # q2 # qr) (b0 # b1 # b2 # br) = Inr (trunc_toward_zero F)"
         "\<bar>F - of_int k\<bar> \<le> 1 / 2 ^ 12"
      unfolding N_def[symmetric] E by blast
    from trunc_near_integer[OF F(2) k0]
    have "trunc_toward_zero F = k \<or> trunc_toward_zero F = k - sgn k" .
    moreover have "spec_score (a0 # a1 # a2 # ar) (b0 # b1 # b2 # br) = k"
      by (simp add: spec_score_def sb E trunc_of_int)
    moreover have "1000 dvd N" using m by presburger
    ultimately show ?thesis using F(1) nz unfolding N_def by auto
  qed
qed

text \<open>
  The scenario of the spec: ask volumes 50, 50, 50 against empty bids give 0.
\<close>

lemma spec_score_50: "spec_score [50, 50, 50, 0, 0] [0, 0, 0, 0, 0] = 0"
proof -
  have b: "spec_balance [50, 50, 50, 0, 0] [0, 0, 0, 0, 0] = 1 / 2"
    by (simp add: spec_balance_def level_volume_def)
  have "trunc_toward_zero (1 / 2) = 0"
    by (rule trunc_toward_zero_pos) simp_all
  then show ?thesis unfolding spec_score_def b .
qed

theorem score_is_exact_off_integers_witness:
  "\<bar>50 :: int\<bar> \<le> 2 ^ 32 \<and> \<bar>0 :: int\<bar> \<le> 2 ^ 32 \<and>
   assess_market_balance [101, 102, 103, 104, 105] [50, 50, 50, 0, 0]
      [100, 99, 98, 97, 96] [0, 0, 0, 0, 0] = Inr 0 \<and>
   spec_score [50, 50, 50, 0, 0] [0, 0, 0, 0, 0] = 0"
  using score_is_exact_off_integers[of 50 50 50 0 0 0 101 102 103 "[104, 105]" "[0, 0]"
      100 99 98 "[97, 96]" "[0, 0]"]
  by (auto simp: spec_score_50)

text \<open>
  Claim C4 as stated fails where the exact score is an integer: with 11000 lots on the
  best ask and nothing else, the exact score is 77, but \<open>11000 * 0.7\<close> is rounded to
  \<open>7699.999999999999\<close>, the quotient by 100 to \<open>76.99999999999999\<close>, and the code returns 76.
\<close>

theorem score_differs_from_spec_counterexample:
  "assess_market_balance [101, 102, 103, 104, 105] [11000, 0, 0, 0, 0]
      [100, 99, 98, 97, 96] [0, 0, 0, 0, 0] = Inr 76 \<and>
   spec_score [11000, 0, 0, 0, 0] [0, 0, 0, 0, 0] = 77"
proof -
  have t: "to_double (of_int 11000 * (3152519739159347 / 2 ^ 52)) = Finite (8466239533875199 / 2 ^ 40)"
    using round_11000 by (intro to_double_eqI) simp_all
  have p: "int_times_float 11000 (3152519739159347 / 2 ^ 52) = Inr (Finite (8466239533875199 / 2 ^ 40))"
    using float_of_int_exact[of 11000] t by (simp add: int_times_float_def)
  have a: "to_double (8466239533875199 / 2 ^ 40) = Finite (8466239533875199 / 2 ^ 40)"
    using round_7700 by (intro to_double_eqI) simp_all
  have d: "to_double (8466239533875199 / 2 ^ 40 / 100) = Finite (5418393301680127 / 2 ^ 46)"
    using round_77 by (intro to_double_eqI) simp_all
  have tr: "trunc_toward_zero (5418393301680127 / 2 ^ 46) = 76"
    by (rule trunc_toward_zero_pos) simp_all
  have "assess_market_balance [101, 102, 103, 104, 105] [11000, 0, 0, 0, 0]
      [100, 99, 98, 97, 96] [0, 0, 0, 0, 0] = Inr 76"
    using p a d tr
    by (simp add: assess_market_balance_def length_weights upt3 balance_step_def
        weights_values int_times_float_0 float_sub_def)
  moreover have "spec_balance [11000, 0, 0, 0, 0] [0, 0, 0, 0, 0] = of_int 77"
    by (simp add: spec_balance_def level_volume_def)
  then have "spec_score [11000, 0, 0, 0, 0] [0, 0, 0, 0, 0] = 77"
    unfolding spec_score_def by (simp only: trunc_of_int)
  ultimately show ?thesis by simp
qed

section \<open>Books with fewer than three levels\<close>

lemma int_times_float_bounded:
  assumes "\<bar>n\<bar> \<le> 2 ^ 32"
  shows "\<exists>x. int_times_float n w = Inr x"
proof -
  from assms have "\<bar>n\<bar> < 2 ^ 53" by simp
  then show ?thesis by (simp add: int_times_float_def float_of_int_exact)
qed

lemma balance_step_bounded:
  assumes "\<forall>v \<in> snd ` set xs \<union> snd ` set ys. \<bar>v\<bar> \<le> 2 ^ 32"
  shows "if i < length xs \<and> i < length ys
         then \<exists>b'. balance_step xs ys balance i = Inr b'
         else balance_step xs ys balance i = Inl IndexError"
proof (cases "i < length xs")
  case False
  then show ?thesis by (simp add: balance_step_def)
next
  case True
  with assms have "\<bar>snd (xs ! i)\<bar> \<le> 2 ^ 32" by (simp add: nth_mem)
  from int_times_float_bounded[OF this] obtain x where
    x: "int_times_float (snd (xs ! i)) (weights ! i) = Inr x" by blast
  show ?thesis
  proof (cases "i < length ys")
    case False
    with True x show ?thesis by (simp add: balance_step_def)
  next
    case iy: True
    with assms have "\<bar>snd (ys ! i)\<bar> \<le> 2 ^ 32" by (simp add: nth_mem)
    from int_times_float_bounded[OF this] obtain y where
      "int_times_float (snd (ys ! i)) (weights ! i) = Inr y" by blast
    with True iy x show ?thesis by (simp add: balance_step_def)
  qed
qed

lemma balance_loop_short:
  assumes b: "\<forall>v \<in> snd ` set xs \<union> snd ` set ys. \<bar>v\<bar> \<le> 2 ^ 32"
    and short: "length xs < 3 \<or> length ys < 3"
  shows "balance_loop xs ys [0, 1, 2] balance = Inl IndexError"
proof -
  note st = balance_step_bounded[OF b]
  show ?thesis
  proof (cases "0 < length xs \<and> 0 < length ys")
    case False
    with st[of 0 balance] show ?thesis by auto
  next
    case l0: True
    with st[of 0 balance] obtain b1 where b1: "balance_step xs ys balance 0 = Inr b1" by auto
    show ?thesis
    proof (cases "1 < length xs \<and> 1 < length ys")
      case False
      with st[of 1 b1] b1 show ?thesis by auto
    next
      case l1: True
      with st[of 1 b1] obtain b2 where b2: "balance_step xs ys b1 1 = Inr b2" by auto
      from short have "\<not> (2 < length xs \<and> 2 < length ys)" by auto
      with st[of 2 b2] b1 b2 show ?thesis by auto
    qed
  qed
qed

text \<open>
  Claim C5, as the code has it.  With volumes of magnitude at most \<open>2^32\<close>, the score is
  computed exactly when both sides have at least three (price, volume) pairs; with fewer on
  either side the indexing \<open>asks[i]\<close> or \<open>bids[i]\<close> raises \<open>IndexError\<close> and no score is
  returned.  Absent levels are never taken as zero volume.
\<close>

theorem score_needs_three_levels:
  assumes "\<forall>v \<in> set av \<union> set bv. \<bar>v\<bar> \<le> 2 ^ 32"
  shows "if 3 \<le> min (length ap) (length av) \<and> 3 \<le> min (length bp) (length bv)
         then \<exists>k. assess_market_balance ap av bp bv = Inr k
         else assess_market_balance ap av bp bv = Inl IndexError"
proof (cases "3 \<le> min (length ap) (length av) \<and> 3 \<le> min (length bp) (length bv)")
  case True
  then obtain p0 p1 p2 pr a0 a1 a2 ar q0 q1 q2 qr b0 b1 b2 br where
    l: "ap = p0 # p1 # p2 # pr" "av = a0 # a1 # a2 # ar" "bp = q0 # q1 # q2 # qr"
       "bv = b0 # b1 # b2 # br"
    by (auto simp: numeral_3_eq_3 Suc_le_length_iff)
  with assms have "\<bar>a0\<bar> \<le> 2 ^ 32" "\<bar>a1\<bar> \<le> 2 ^ 32" "\<bar>a2\<bar> \<le> 2 ^ 32"
      "\<bar>b0\<bar> \<le> 2 ^ 32" "\<bar>b1\<bar> \<le> 2 ^ 32" "\<bar>b2\<bar> \<le> 2 ^ 32" by auto
  from assess_approx[OF this, of p0 p1 p2 pr ar q0 q1 q2 qr br] True show ?thesis
    unfolding l by auto
next
  case False
  define xs where "xs = zip (take 3 ap) (take 3 av)"
  define ys where "ys = zip (take 3 bp) (take 3 bv)"
  have "snd ` set xs \<subseteq> set av" "snd ` set ys \<subseteq> set bv"
    unfolding xs_def ys_def by (auto dest!: set_zip_rightD in_set_takeD)
  with assms have b: "\<forall>v \<in> snd ` set xs \<union> snd ` set ys. \<bar>v\<bar> \<le> 2 ^ 32" by blast
  from False have "length xs < 3 \<or> length ys < 3" by (auto simp: xs_def ys_def)
  from balance_loop_short[OF b this]
  have "balance_loop xs ys [0..<3] (Finite 0) = Inl IndexError" by (simp add: upt3)
  with False show ?thesis
    by (simp add: assess_market_balance_def length_weights xs_def ys_def)
qed

theorem score_needs_three_levels_witness:
  "\<bar>5 :: int\<bar> \<le> 2 ^ 32 \<and> \<bar>7 :: int\<bar> \<le> 2 ^ 32 \<and>
   assess_market_balance [101, 102, 103] [5, 5] [100, 99, 98] [7, 7, 7] = Inl IndexError"
  using score_needs_three_levels[of "[5, 5]" "[7, 7, 7]" "[101, 102, 103]" "[100, 99, 98]"] by simp

text \<open>
  Claim C5 as stated fails: two ask levels with zero volume against three bid levels raise
  \<open>IndexError\<close> instead of giving a score.
\<close>

theorem short_book_raises_counterexample:
  "assess_market_balance [101, 102] [0, 0] [100, 99, 98] [0, 0, 0] = Inl IndexError"
  by (simp add: assess_market_balance_def length_weights upt3 balance_step_def
      int_times_float_0 float_sub_def to_double_0)

section \<open>Base volumes\<close>

text \<open>
  Claim C6.  The base bid volume is the lot size 10 for a long position and otherwise
  \<open>clamp(\<bar>position\<bar>, 10, 190)\<close>, which is \<open>min (max 10 \<bar>position\<bar>) 190\<close>; the base ask
  volume is the lot size for a short position and otherwise the same clamp.  These are the
  volumes the handler hands to the scaling step (lemma \<open>book_update_FUTURE\<close>).
\<close>

theorem base_volumes_match_spec:
  "base_bid_volume pos = (if 0 < pos then 10 else clamp \<bar>pos\<bar> 10 190) \<and>
   base_ask_volume pos = (if pos < 0 then 10 else clamp \<bar>pos\<bar> 10 190) \<and>
   clamp \<bar>pos\<bar> 10 190 = min (max 10 \<bar>pos\<bar>) 190"
  by (simp add: base_bid_volume_def base_ask_volume_def clamp_def limits min_def max_def)

section \<open>Cancels\<close>

text \<open>
  Claim C7.  On a snapshot of the tracked instrument, the cancel instructions sent are: one
  for the bid iff a bid is live (identifier not 0), the new best bid is not 0 and differs
  from the recorded bid price; and likewise one for the ask.  So an unchanged price, or a
  price of 0, never cancels.
\<close>

theorem cancel_iff_price_moved:
  assumes "on_order_book_update_message s FUTURE n (ask0 # aps) av (bid0 # bps) bv = Inr (s', out)"
  shows "filter is_cancel out =
     (if bid_id s \<noteq> 0 \<and> bid0 \<noteq> 0 \<and> bid0 \<noteq> bid_price s then [CancelOrder (bid_id s)] else []) @
     (if ask_id s \<noteq> 0 \<and> ask0 \<noteq> 0 \<and> ask0 \<noteq> ask_price s then [CancelOrder (ask_id s)] else [])"
proof -
  from assms obtain nbv nav where "reconcile s bid0 ask0 nbv nav = (s', out)"
    by (auto simp: book_update_FUTURE)
  then show ?thesis by (rule reconcile_cancels)
qed

text \<open>
  The theorem on the second snapshot of a session: the best bid moved from 100 to 99 and
  the bid is cancelled, the best ask stayed at 101 and the ask is left alone.
\<close>

theorem cancel_iff_price_moved_witness:
  "on_order_book_update_message
      \<lparr>order_ids = 3, bids = {1}, asks = {2}, ask_id = 2, ask_price = 101,
       bid_id = 1, bid_price = 100, position = 0\<rparr> FUTURE 2
      [101, 102, 103, 104, 105] [0, 0, 0, 0, 0] [99, 98, 97, 96, 95] [0, 0, 0, 0, 0] =
   Inr (\<lparr>order_ids = 4, bids = {3, 1}, asks = {2}, ask_id = 2, ask_price = 101,
          bid_id = 3, bid_price = 99, position = 0\<rparr>,
        [CancelOrder 1, InsertOrder 3 BUY 99 10 GOOD_FOR_DAY]) \<and>
   filter is_cancel [CancelOrder 1, InsertOrder 3 BUY 99 10 GOOD_FOR_DAY] = [CancelOrder 1]"
  using cancel_iff_price_moved[OF second_tick] second_tick by simp

section \<open>Status and fill notifications\<close>

text \<open>
  Claim C8.  In every reachable state, a status notification with remaining volume 0
  delivered a second time changes nothing: the handler applied twice equals the handler
  applied once.  (The two live identifiers of a reachable state differ, so the second
  delivery cannot clear the other side.)
\<close>

theorem status_closure_idempotent:
  assumes "reachable s"
  shows "on_order_status_message
           (on_order_status_message s client_order_id fill_volume 0 fees)
           client_order_id fill_volume 0 fees
       = on_order_status_message s client_order_id fill_volume 0 fees"
proof -
  from assms have "bid_id s = ask_id s \<longrightarrow> bid_id s = 0"
    using reachable_inv by (simp add: ledger_inv_def)
  then show ?thesis
    by (auto simp: on_order_status_message_def Let_def)
qed

theorem status_closure_idempotent_witness:
  "reachable \<lparr>order_ids = 3, bids = {1}, asks = {2}, ask_id = 2, ask_price = 101,
       bid_id = 1, bid_price = 100, position = 0\<rparr> \<and>
   on_order_status_message (on_order_status_message
       \<lparr>order_ids = 3, bids = {1}, asks = {2}, ask_id = 2, ask_price = 101,
        bid_id = 1, bid_price = 100, position = 0\<rparr> 1 10 0 0) 1 10 0 0
     = \<lparr>order_ids = 3, bids = {}, asks = {2}, ask_id = 2, ask_price = 101,
        bid_id = 0, bid_price = 100, position = 0\<rparr>"
  using status_closure_idempotent[OF reachable_first, of 1 10 0] reachable_first
  by (simp add: on_order_status_message_def Let_def)

text \<open>
  Claim C9.  In every reachable state, a fill for an identifier recorded as a bid adds the
  volume to the position, a fill for one recorded as an ask subtracts it, and a fill for an
  identifier recorded on neither side leaves the whole state unchanged.  The fill never
  touches the ledger (the two live identifiers and the two sets), and a status notification
  with remaining volume other than 0 changes nothing either: only a zero remaining volume
  closes the order.
\<close>

theorem fill_updates_position_only:
  assumes "reachable s"
  shows "(oid \<in> bids s \<longrightarrow> position (on_order_filled_message s oid price volume) = position s + volume) \<and>
         (oid \<in> asks s \<longrightarrow> position (on_order_filled_message s oid price volume) = position s - volume) \<and>
         (oid \<notin> bids s \<union> asks s \<longrightarrow> on_order_filled_message s oid price volume = s) \<and>
         bids (on_order_filled_message s oid price volume) = bids s \<and>
         asks (on_order_filled_message s oid price volume) = asks s \<and>
         bid_id (on_order_filled_message s oid price volume) = bid_id s \<and>
         ask_id (on_order_filled_message s oid price volume) = ask_id s \<and>
         (remaining_volume \<noteq> 0 \<longrightarrow>
            on_order_status_message s oid fill_volume remaining_volume fees = s)"
proof -
  from assms have "bids s \<inter> asks s = {}"
    using reachable_inv by (simp add: ledger_inv_def)
  then show ?thesis
    by (auto simp: on_order_filled_message_def on_order_status_message_def)
qed

theorem fill_updates_position_only_witness:
  "reachable \<lparr>order_ids = 3, bids = {1}, asks = {2}, ask_id = 2, ask_price = 101,
       bid_id = 1, bid_price = 100, position = 0\<rparr> \<and>
   on_order_filled_message \<lparr>order_ids = 3, bids = {1}, asks = {2}, ask_id = 2, ask_price = 101,
       bid_id = 1, bid_price = 100, position = 0\<rparr> 1 100 4
     = \<lparr>order_ids = 3, bids = {1}, asks = {2}, ask_id = 2, ask_price = 101,
       bid_id = 1, bid_price = 100, position = 4\<rparr> \<and>
   on_order_filled_message \<lparr>order_ids = 3, bids = {1}, asks = {2}, ask_id = 2, ask_price = 101,
       bid_id = 1, bid_price = 100, position = 0\<rparr> 2 101 4
     = \<lparr>order_ids = 3, bids = {1}, asks = {2}, ask_id = 2, ask_price = 101,
       bid_id = 1, bid_price = 100, position = - 4\<rparr> \<and>
   on_order_filled_message \<lparr>order_ids = 3, bids = {1}, asks = {2}, ask_id = 2, ask_price = 101,
       bid_id = 1, bid_price = 100, position = 0\<rparr> 7 101 4
     = \<lparr>order_ids = 3, bids = {1}, asks = {2}, ask_id = 2, ask_price = 101,
       bid_id = 1, bid_price = 100, position = 0\<rparr> \<and>
   on_order_status_message \<lparr>order_ids = 3, bids = {1}, asks = {2}, ask_id = 2, ask_price = 101,
       bid_id = 1, bid_price = 100, position = 0\<rparr> 1 4 6 0
     = \<lparr>order_ids = 3, bids = {1}, asks = {2}, ask_id = 2, ask_price = 101,
       bid_id = 1, bid_price = 100, position = 0\<rparr>"
  using fill_updates_position_only[OF reachable_first, of 1 100 4 6 4 0]
    fill_updates_position_only[OF reachable_first, of 2 101 4 6 4 0]
    fill_updates_position_only[OF reachable_first, of 7 101 4 6 4 0] reachable_first
  by (simp add: on_order_filled_message_def on_order_status_message_def)

section \<open>The per-order volume cap\<close>

text \<open>
  A session in which the trader sells: the first quote of 10 lots is filled, then five
  quotes of 20 lots each (the score is \<open>-2\<close>, so the ask is doubled), each filled completely
  and closed.  The position is then \<open>-110\<close>.
\<close>

lemma sell_round:
  assumes r: "reachable s" and a: "ask_id s = 0" and b: "bid_id s \<noteq> 0" "bid_price s = 100"
    and p: "position s \<le> 0" "- 980 < position s"
  shows "reachable (s\<lparr>order_ids := order_ids s + 1, ask_price := 101,
                      position := position s - 20\<rparr>)"
proof -
  define oid where "oid = order_ids s"
  from reachable_inv[OF r] have inv: "bid_id s < oid" "oid \<notin> bids s" "oid \<notin> asks s"
    by (auto simp: ledger_inv_def oid_def)
  define s1 where "s1 = s\<lparr>order_ids := oid + 1, ask_id := oid, ask_price := 101,
                          asks := insert oid (asks s)\<rparr>"
  have "on_order_book_update_message s FUTURE 0
          [101, 102, 103, 104, 105] [0, 0, 0, 0, 0] [100, 99, 98, 97, 96] [300, 0, 0, 0, 0]
        = Inr (s1, [InsertOrder oid SELL 101 20 GOOD_FOR_DAY])"
    using a b p by (simp add: tick_defs score_heavy_bids s1_def oid_def)
  with r have r1: "reachable s1" by (rule reach_book)
  have "on_order_filled_message s1 oid 101 20 = s1\<lparr>position := position s - 20\<rparr>"
    using inv by (simp add: on_order_filled_message_def s1_def)
  with reach_fill[OF r1, of oid 101 20] have r2: "reachable (s1\<lparr>position := position s - 20\<rparr>)"
    by simp
  have "on_order_status_message (s1\<lparr>position := position s - 20\<rparr>) oid 20 0 0
        = s\<lparr>order_ids := order_ids s + 1, ask_price := 101, position := position s - 20\<rparr>"
    using inv a by (simp add: on_order_status_message_def s1_def oid_def Let_def)
  with reach_status[OF r2, of oid 20 0 0] show ?thesis by simp
qed

lemma reachable_short_10:
  "reachable \<lparr>order_ids = 3, bids = {1}, asks = {}, ask_id = 0, ask_price = 101,
       bid_id = 1, bid_price = 100, position = - 10\<rparr>"
proof -
  have "reachable (on_order_status_message (on_order_filled_message
          \<lparr>order_ids = 3, bids = {1}, asks = {2}, ask_id = 2, ask_price = 101,
           bid_id = 1, bid_price = 100, position = 0\<rparr> 2 101 10) 2 10 0 0)"
    by (intro reach_status reach_fill reachable_first)
  then show ?thesis
    by (simp add: on_order_status_message_def on_order_filled_message_def Let_def)
qed

lemma reachable_short_110:
  "reachable \<lparr>order_ids = 8, bids = {1}, asks = {}, ask_id = 0, ask_price = 101,
       bid_id = 1, bid_price = 100, position = - 110\<rparr>"
proof -
  note r0 = reachable_short_10
  from sell_round[OF r0] have r1:
    "reachable \<lparr>order_ids = 4, bids = {1}, asks = {}, ask_id = 0, ask_price = 101,
       bid_id = 1, bid_price = 100, position = - 30\<rparr>" by simp
  from sell_round[OF r1] have r2:
    "reachable \<lparr>order_ids = 5, bids = {1}, asks = {}, ask_id = 0, ask_price = 101,
       bid_id = 1, bid_price = 100, position = - 50\<rparr>" by simp
  from sell_round[OF r2] have r3:
    "reachable \<lparr>order_ids = 6, bids = {1}, asks = {}, ask_id = 0, ask_price = 101,
       bid_id = 1, bid_price = 100, position = - 70\<rparr>" by simp
  from sell_round[OF r3] have r4:
    "reachable \<lparr>order_ids = 7, bids = {1}, asks = {}, ask_id = 0, ask_price = 101,
       bid_id = 1, bid_price = 100, position = - 90\<rparr>" by simp
  from sell_round[OF r4] show ?thesis by simp
qed

lemma oversized_tick:
  "on_order_book_update_message
      \<lparr>order_ids = 8, bids = {1}, asks = {}, ask_id = 0, ask_price = 101,
       bid_id = 1, bid_price = 100, position = - 110\<rparr> FUTURE 9
      [101, 102, 103, 104, 105] [300, 0, 0, 0, 0] [99, 98, 97, 96, 95] [0, 0, 0, 0, 0] =
   Inr (\<lparr>order_ids = 10, bids = {8, 1}, asks = {9}, ask_id = 9, ask_price = 101,
          bid_id = 8, bid_price = 99, position = - 110\<rparr>,
        [CancelOrder 1, InsertOrder 8 BUY 99 220 GOOD_FOR_DAY,
         InsertOrder 9 SELL 101 10 GOOD_FOR_DAY])"
  by (simp add: tick_defs score_heavy_asks)

lemma insert_volume_le_380:
  assumes "on_order_book_update_message s instrument n ap av bp bv = Inr (s', out)"
    and "InsertOrder oid sd pr v l \<in> set out"
  shows "v \<le> 380"
proof (cases "instrument = FUTURE")
  case True
  with assms(1) obtain bid0 ask0 b where r: "(s', out) = reconcile s bid0 ask0
         (fst (scale_volumes (position s) b (base_bid_volume (position s), base_ask_volume (position s))))
         (snd (scale_volumes (position s) b (base_bid_volume (position s), base_ask_volume (position s))))"
    by (auto simp: book_update_FUTURE)
  from reconcile_inserts[OF r[symmetric] assms(2)] scaled_bounds[of "base_bid_volume (position s)" "base_ask_volume (position s)" "position s" b] base_bounds[of "position s"]
  show ?thesis by (cases sd) auto
next
  case False
  with assms show ?thesis by (simp add: book_update_other)
qed

text \<open>
  Claim C10.  Every inserted order has volume at most 380, which is
  \<open>MARKET_BALANCE_LIMIT * (VOLUME_LIMIT - LOT_SIZE)\<close>; and there is a reachable state and a
  snapshot for which an inserted order is larger than \<open>VOLUME_LIMIT = 200\<close>: the cap of 190
  is applied before the scaling, not after it.
\<close>

theorem scaled_volume_bound_and_breach:
  "(\<forall>s instrument n ap av bp bv s' out oid sd pr v l.
      on_order_book_update_message s instrument n ap av bp bv = Inr (s', out) \<longrightarrow>
      InsertOrder oid sd pr v l \<in> set out \<longrightarrow> v \<le> 380) \<and>
   (\<exists>s n ap av bp bv s' out oid sd pr v l.
      reachable s \<and> on_order_book_update_message s FUTURE n ap av bp bv = Inr (s', out) \<and>
      InsertOrder oid sd pr v l \<in> set out \<and> 200 < v)"
proof
  show "\<forall>s instrument n ap av bp bv s' out oid sd pr v l.
      on_order_book_update_message s instrument n ap av bp bv = Inr (s', out) \<longrightarrow>
      InsertOrder oid sd pr v l \<in> set out \<longrightarrow> v \<le> 380"
    using insert_volume_le_380 by blast
next
  have "InsertOrder 8 BUY 99 220 GOOD_FOR_DAY \<in>
     set [CancelOrder 1, InsertOrder 8 BUY 99 220 GOOD_FOR_DAY, InsertOrder 9 SELL 101 10 GOOD_FOR_DAY]"
    by simp
  moreover have "(200::int) < 220" by simp
  ultimately show "\<exists>s n ap av bp bv s' out oid sd pr v l.
      reachable s \<and> on_order_book_update_message s FUTURE n ap av bp bv = Inr (s', out) \<and>
      InsertOrder oid sd pr v l \<in> set out \<and> 200 < v"
    using reachable_short_110 oversized_tick by blast
qed

theorem scaled_volume_bound_and_breach_witness:
  "on_order_book_update_message
      \<lparr>order_ids = 8, bids = {1}, asks = {}, ask_id = 0, ask_price = 101,
       bid_id = 1, bid_price = 100, position = - 110\<rparr> FUTURE 9
      [101, 102, 103, 104, 105] [300, 0, 0, 0, 0] [99, 98, 97, 96, 95] [0, 0, 0, 0, 0] =
   Inr (\<lparr>order_ids = 10, bids = {8, 1}, asks = {9}, ask_id = 9, ask_price = 101,
          bid_id = 8, bid_price = 99, position = - 110\<rparr>,
        [CancelOrder 1, InsertOrder 8 BUY 99 220 GOOD_FOR_DAY,
         InsertOrder 9 SELL 101 10 GOOD_FOR_DAY]) \<and>
   (220 :: int) \<le> 380 \<and> (200 :: int) < 220"
proof -
  from scaled_volume_bound_and_breach have "\<forall>s instrument n ap av bp bv s' out oid sd pr v l.
      on_order_book_update_message s instrument n ap av bp bv = Inr (s', out) \<longrightarrow>
      InsertOrder oid sd pr v l \<in> set out \<longrightarrow> v \<le> 380" by (rule conjunct1)
  then have "on_order_book_update_message
      \<lparr>order_ids = 8, bids = {1}, asks = {}, ask_id = 0, ask_price = 101,
       bid_id = 1, bid_price = 100, position = - 110\<rparr> FUTURE 9
      [101, 102, 103, 104, 105] [300, 0, 0, 0, 0] [99, 98, 97, 96, 95] [0, 0, 0, 0, 0] =
     Inr (\<lparr>order_ids = 10, bids = {8, 1}, asks = {9}, ask_id = 9, ask_price = 101,
          bid_id = 8, bid_price = 99, position = - 110\<rparr>,
        [CancelOrder 1, InsertOrder 8 BUY 99 220 GOOD_FOR_DAY,
         InsertOrder 9 SELL 101 10 GOOD_FOR_DAY]) \<longrightarrow>
     InsertOrder 8 BUY 99 220 GOOD_FOR_DAY \<in> set [CancelOrder 1, InsertOrder 8 BUY 99 220 GOOD_FOR_DAY,
         InsertOrder 9 SELL 101 10 GOOD_FOR_DAY] \<longrightarrow> (220::int) \<le> 380"
    by blast
  with oversized_tick show ?thesis by simp
qed

end
